theory Spec2Isabelle
  imports Complex_Main
begin

section \<open>Data model (notedata.h)\<close>

text \<open>
  \<^verbatim>\<open>NoteStyle\<close> and \<^verbatim>\<open>Note\<close> are plain structs. C++ \<^verbatim>\<open>int\<close> is modelled by
  \<open>int\<close> and \<^verbatim>\<open>double\<close>/\<^verbatim>\<open>qreal\<close> by \<open>real\<close> (no overflow, no NaN); \<^verbatim>\<open>QPoint\<close> and
  \<^verbatim>\<open>QSize\<close> are pairs of integers. The fields \<^verbatim>\<open>id\<close> and \<^verbatim>\<open>size\<close> are
  called \<open>note_id\<close> and \<open>note_size\<close>, the plain names being HOL constants.
\<close>

record NoteStyle =
  transparency :: real
  backgroundColor :: string
  margin :: int

record Note =
  note_id :: int
  status :: string
  filepath :: string
  position :: "int \<times> int"
  note_size :: "int \<times> int"
  style :: NoteStyle

definition NoteStyle_default :: NoteStyle where
  "NoteStyle_default = \<lparr>transparency = 1, backgroundColor = ''#FFFFE0'', margin = 10\<rparr>"

definition Note_default :: Note where
  "Note_default =
     \<lparr>note_id = - 1, status = ''shown'', filepath = [], position = (50, 50),
      note_size = (200, 150), style = NoteStyle_default\<rparr>"

definition isValid :: "Note \<Rightarrow> bool" where
  "isValid n = (note_id n \<noteq> - 1)"

section \<open>Qt values used by the store\<close>

text \<open>
  A \<^verbatim>\<open>QVariant\<close> holding a double, an int or a string, and a JSON value (number or string).
  \<^verbatim>\<open>QVariantMap\<close> and the JSON object are association lists in key order.
  The conversions between a string and a number (\<^verbatim>\<open>QVariant::toDouble\<close> of a string and so
  on) are Qt's; they are taken as the parameter \<open>cv\<close>.
\<close>

datatype QVariant = VDouble real | VInt int | VString string

datatype QJsonValue = JNumber real | JString string

type_synonym QVariantMap = "(string \<times> QVariant) list"
type_synonym QJsonObject = "(string \<times> QJsonValue) list"

record QtConv =
  str_toDouble :: "string \<Rightarrow> real"
  str_toInt :: "string \<Rightarrow> int"
  num_toString :: "real \<Rightarrow> string"

text \<open>
  \<^verbatim>\<open>qRound\<close> rounds a double to the nearest \<^verbatim>\<open>int\<close> by a conversion to the 32-bit
  type. For a value outside the range of \<^verbatim>\<open>int\<close> that conversion is undefined in C++;
  the x86-64 conversion instruction then yields the least \<^verbatim>\<open>int\<close>, which is the value
  taken here. \<^verbatim>\<open>qRound64\<close>, used by \<^verbatim>\<open>QVariant::toInt\<close> on a double, rounds to a
  64-bit integer; the numbers it meets are the stored \<^verbatim>\<open>int\<close> fields.
\<close>

definition qRound :: "real \<Rightarrow> int" where
  "qRound d =
     (let r = \<lfloor>d + 1 / 2\<rfloor>
      in if - 2147483648 \<le> r \<and> r \<le> 2147483647 then r else - 2147483648)"

definition qRound64 :: "real \<Rightarrow> int" where
  "qRound64 d = \<lfloor>d + 1 / 2\<rfloor>"

fun toDouble :: "QtConv \<Rightarrow> QVariant \<Rightarrow> real" where
  "toDouble cv (VDouble d) = d"
| "toDouble cv (VInt i) = of_int i"
| "toDouble cv (VString s) = str_toDouble cv s"

fun toInt :: "QtConv \<Rightarrow> QVariant \<Rightarrow> int" where
  "toInt cv (VDouble d) = qRound64 d"
| "toInt cv (VInt i) = i"
| "toInt cv (VString s) = str_toInt cv s"

fun toString :: "QtConv \<Rightarrow> QVariant \<Rightarrow> string" where
  "toString cv (VDouble d) = num_toString cv d"
| "toString cv (VInt i) = num_toString cv (of_int i)"
| "toString cv (VString s) = s"

definition map_value :: "QVariantMap \<Rightarrow> string \<Rightarrow> QVariant \<Rightarrow> QVariant" where
  "map_value m k dflt = (case map_of m k of None \<Rightarrow> dflt | Some v \<Rightarrow> v)"

fun fromVariant :: "QVariant \<Rightarrow> QJsonValue" where
  "fromVariant (VDouble d) = JNumber d"
| "fromVariant (VInt i) = JNumber (of_int i)"
| "fromVariant (VString s) = JString s"

fun toVariant :: "QJsonValue \<Rightarrow> QVariant" where
  "toVariant (JNumber d) = VDouble d"
| "toVariant (JString s) = VString s"

definition fromVariantMap :: "QVariantMap \<Rightarrow> QJsonObject" where
  "fromVariantMap m = map (\<lambda>(k, v). (k, fromVariant v)) m"

definition toVariantMap :: "QJsonObject \<Rightarrow> QVariantMap" where
  "toVariantMap obj = map (\<lambda>(k, v). (k, toVariant v)) obj"

section \<open>The record store (databasemanager.cpp)\<close>

text \<open>
  One row of the table \<^verbatim>\<open>notes\<close>. \<^verbatim>\<open>filepath\<close> is nullable. The \<^verbatim>\<open>style\<close>
  column holds the compact JSON text of an object; \<^verbatim>\<open>QJsonDocument::toJson\<close> and
  \<^verbatim>\<open>fromJson\<close> are inverse on objects, so the column is modelled by the object.
\<close>

record row =
  c_id :: int
  c_status :: string
  c_filepath :: "string option"
  c_position_x :: int
  c_position_y :: int
  c_size_width :: int
  c_size_height :: int
  c_style :: QJsonObject

text \<open>
  The database handle together with the file behind it.
  \<^item> \<open>isOpen\<close>: \<^verbatim>\<open>m_db.isOpen()\<close>;
  \<^item> \<open>canOpen\<close>: whether the directory can be made and \<^verbatim>\<open>m_db.open()\<close> succeeds;
  \<^item> \<open>hasTable\<close>: the table \<^verbatim>\<open>notes\<close> exists;
  \<^item> \<open>notes_tbl\<close>: its rows, in the order of the table (the rowid B-tree), which is the
    order a \<^verbatim>\<open>SELECT\<close> without \<^verbatim>\<open>ORDER BY\<close> walks;
  \<^item> \<open>sqlite_sequence\<close>: the largest id AUTOINCREMENT has handed out;
  \<^item> \<open>faults\<close>: the outcomes of the coming \<^verbatim>\<open>query.exec()\<close> calls, \<open>True\<close> for
    a call that fails (disk, lock); an empty list means no more failures.
\<close>

record DatabaseManager =
  isOpen :: bool
  canOpen :: bool
  hasTable :: bool
  notes_tbl :: "row list"
  sqlite_sequence :: int
  faults :: "bool list"

definition exec :: "DatabaseManager \<Rightarrow> bool \<times> DatabaseManager" where
  "exec d = (case faults d of [] \<Rightarrow> (True, d) | f # fs \<Rightarrow> (\<not> f, d\<lparr>faults := fs\<rparr>))"

text \<open>A statement on the table \<^verbatim>\<open>notes\<close> also fails when the table is missing.\<close>

definition exec_notes :: "DatabaseManager \<Rightarrow> bool \<times> DatabaseManager" where
  "exec_notes d = (case exec d of (ok, d') \<Rightarrow> (ok \<and> hasTable d', d'))"

definition initializeDatabase :: "DatabaseManager \<Rightarrow> bool \<times> DatabaseManager" where
  "initializeDatabase d =
     (if \<not> isOpen d then (False, d)
      else case exec d of (ok, d') \<Rightarrow>
        if \<not> ok then (False, d') else (True, d'\<lparr>hasTable := True\<rparr>))"

definition openDb :: "DatabaseManager \<Rightarrow> bool \<times> DatabaseManager" where
  "openDb d =
     (if isOpen d then (True, d)
      else if \<not> canOpen d then (False, d)
      else initializeDatabase (d\<lparr>isOpen := True\<rparr>))"

text \<open>The guard \<^verbatim>\<open>!m_db.isOpen() && !openDb()\<close> of every operation, negated.\<close>

definition ensureOpen :: "DatabaseManager \<Rightarrow> bool \<times> DatabaseManager" where
  "ensureOpen d = (if isOpen d then (True, d) else openDb d)"

definition styleToVariantMap :: "NoteStyle \<Rightarrow> QVariantMap" where
  "styleToVariantMap s =
     [(''backgroundColor'', VString (backgroundColor s)),
      (''margin'', VInt (margin s)),
      (''transparency'', VDouble (transparency s))]"

definition styleFromVariantMap :: "QtConv \<Rightarrow> QVariantMap \<Rightarrow> NoteStyle" where
  "styleFromVariantMap cv m =
     \<lparr>transparency = toDouble cv (map_value m ''transparency'' (VDouble 1)),
      backgroundColor = toString cv (map_value m ''backgroundColor'' (VString ''#FFFFE0'')),
      margin = toInt cv (map_value m ''margin'' (VInt 10))\<rparr>"

text \<open>The values bound by \<^verbatim>\<open>addNote\<close> and \<^verbatim>\<open>updateNote\<close>, for the row with id \<open>i\<close>.\<close>

definition bind_row :: "int \<Rightarrow> Note \<Rightarrow> row" where
  "bind_row i n =
     \<lparr>c_id = i, c_status = status n,
      c_filepath = (if filepath n = [] then None else Some (filepath n)),
      c_position_x = fst (position n), c_position_y = snd (position n),
      c_size_width = fst (note_size n), c_size_height = snd (note_size n),
      c_style = fromVariantMap (styleToVariantMap (style n))\<rparr>"

text \<open>The columns read back by \<^verbatim>\<open>getNoteById\<close> and \<^verbatim>\<open>getAllNotes\<close>.\<close>

definition read_row :: "QtConv \<Rightarrow> row \<Rightarrow> Note" where
  "read_row cv r =
     \<lparr>note_id = c_id r, status = c_status r,
      filepath = (case c_filepath r of None \<Rightarrow> [] | Some p \<Rightarrow> p),
      position = (c_position_x r, c_position_y r),
      note_size = (c_size_width r, c_size_height r),
      style = styleFromVariantMap cv (toVariantMap (c_style r))\<rparr>"

text \<open>
  AUTOINCREMENT: the new id is one more than the largest id that ever existed, which
  SQLite takes as the larger of the \<^verbatim>\<open>sqlite_sequence\<close> entry and the largest rowid.
\<close>

definition next_rowid :: "DatabaseManager \<Rightarrow> int" where
  "next_rowid d = max (sqlite_sequence d) (fold max (map c_id (notes_tbl d)) 0) + 1"

definition addNote :: "Note \<Rightarrow> DatabaseManager \<Rightarrow> int \<times> DatabaseManager" where
  "addNote noteData d =
     (case ensureOpen d of (ok, d1) \<Rightarrow>
        if \<not> ok then (- 1, d1)
        else case exec_notes d1 of (ok2, d2) \<Rightarrow>
          if \<not> ok2 then (- 1, d2)
          else let newId = next_rowid d2
               in (newId, d2\<lparr>notes_tbl := notes_tbl d2 @ [bind_row newId noteData],
                            sqlite_sequence := newId\<rparr>))"

definition updateNote :: "Note \<Rightarrow> DatabaseManager \<Rightarrow> bool \<times> DatabaseManager" where
  "updateNote noteData d =
     (if note_id noteData = - 1 then (False, d)
      else case ensureOpen d of (ok, d1) \<Rightarrow>
        if \<not> ok then (False, d1)
        else case exec_notes d1 of (ok2, d2) \<Rightarrow>
          if \<not> ok2 then (False, d2)
          else (True, d2\<lparr>notes_tbl :=
                  map (\<lambda>r. if c_id r = note_id noteData
                            then bind_row (c_id r) noteData else r) (notes_tbl d2)\<rparr>))"

definition getNoteById :: "QtConv \<Rightarrow> int \<Rightarrow> DatabaseManager \<Rightarrow> Note \<times> DatabaseManager" where
  "getNoteById cv i d =
     (case ensureOpen d of (ok, d1) \<Rightarrow>
        if \<not> ok then (Note_default, d1)
        else case exec_notes d1 of (ok2, d2) \<Rightarrow>
          if \<not> ok2 then (Note_default, d2)
          else (case find (\<lambda>r. c_id r = i) (notes_tbl d2) of
                  Some r \<Rightarrow> (read_row cv r, d2)
                | None \<Rightarrow> (Note_default, d2)))"

text \<open>
  \<^verbatim>\<open>getAllNotes\<close> builds its \<^verbatim>\<open>QSqlQuery\<close> from the statement text, which executes it,
  and then calls \<^verbatim>\<open>exec()\<close>, which executes it again; only the second outcome is tested.
\<close>

definition getAllNotes :: "QtConv \<Rightarrow> DatabaseManager \<Rightarrow> Note list \<times> DatabaseManager" where
  "getAllNotes cv d =
     (case ensureOpen d of (ok, d1) \<Rightarrow>
        if \<not> ok then ([], d1)
        else case exec_notes d1 of (ok0, d2) \<Rightarrow>
          case exec_notes d2 of (ok2, d3) \<Rightarrow>
            if \<not> ok2 then ([], d3)
            else (map (read_row cv) (notes_tbl d3), d3))"

definition deleteNoteById :: "int \<Rightarrow> DatabaseManager \<Rightarrow> bool \<times> DatabaseManager" where
  "deleteNoteById i d =
     (case ensureOpen d of (ok, d1) \<Rightarrow>
        if \<not> ok then (False, d1)
        else case exec_notes d1 of (ok2, d2) \<Rightarrow>
          if \<not> ok2 then (False, d2)
          else (True, d2\<lparr>notes_tbl := filter (\<lambda>r. c_id r \<noteq> i) (notes_tbl d2)\<rparr>))"

definition setNoteStatus :: "int \<Rightarrow> string \<Rightarrow> DatabaseManager \<Rightarrow> bool \<times> DatabaseManager" where
  "setNoteStatus i s d =
     (case ensureOpen d of (ok, d1) \<Rightarrow>
        if \<not> ok then (False, d1)
        else case exec_notes d1 of (ok2, d2) \<Rightarrow>
          if \<not> ok2 then (False, d2)
          else (True, d2\<lparr>notes_tbl :=
                  map (\<lambda>r. if c_id r = i then r\<lparr>c_status := s\<rparr> else r) (notes_tbl d2)\<rparr>))"

section \<open>The management view's status edit (allnotesdialog.cpp)\<close>

text \<open>
  \<^verbatim>\<open>NotesTableModel::setData\<close>, the caller of \<^verbatim>\<open>setNoteStatus\<close>: \<open>row_ix\<close> and
  \<open>col\<close> are the index (valid when the row is not negative), \<open>edit_role\<close> says that
  the role is \<^verbatim>\<open>Qt::EditRole\<close>, \<open>newStatus\<close> is \<^verbatim>\<open>value.toString()\<close>.
\<close>

record NotesTableModel =
  m_notes :: "Note list"
  tm_dbManager :: DatabaseManager

definition setData :: "int \<Rightarrow> int \<Rightarrow> bool \<Rightarrow> string \<Rightarrow> NotesTableModel \<Rightarrow> bool \<times> NotesTableModel" where
  "setData row_ix col edit_role newStatus t =
     (if row_ix < 0 \<or> col < 0 \<or> \<not> edit_role \<or> row_ix \<ge> int (length (m_notes t)) then (False, t)
      else let note = m_notes t ! nat row_ix
           in if col = 1 \<and> status note \<noteq> newStatus
                 \<and> (newStatus = ''shown'' \<or> newStatus = ''hidden'')
              then (case setNoteStatus (note_id note) newStatus (tm_dbManager t) of (ok, d1) \<Rightarrow>
                      (ok, t\<lparr>m_notes := (m_notes t)[nat row_ix := note\<lparr>status := newStatus\<rparr>],
                             tm_dbManager := d1\<rparr>))
              else (False, t))"

section \<open>Geometry (QRectF, QPointF)\<close>

text \<open>A \<^verbatim>\<open>QRectF\<close> stores its top-left corner, its width and its height.\<close>

record QRectF =
  r_x :: real
  r_y :: real
  r_w :: real
  r_h :: real

definition rect_left :: "QRectF \<Rightarrow> real" where "rect_left r = r_x r"
definition rect_top :: "QRectF \<Rightarrow> real" where "rect_top r = r_y r"
definition rect_right :: "QRectF \<Rightarrow> real" where "rect_right r = r_x r + r_w r"
definition rect_bottom :: "QRectF \<Rightarrow> real" where "rect_bottom r = r_y r + r_h r"
definition rect_width :: "QRectF \<Rightarrow> real" where "rect_width r = r_w r"
definition rect_height :: "QRectF \<Rightarrow> real" where "rect_height r = r_h r"

definition setLeft :: "real \<Rightarrow> QRectF \<Rightarrow> QRectF" where
  "setLeft p r = (let diff = p - r_x r in r\<lparr>r_x := r_x r + diff, r_w := r_w r - diff\<rparr>)"

definition setTop :: "real \<Rightarrow> QRectF \<Rightarrow> QRectF" where
  "setTop p r = (let diff = p - r_y r in r\<lparr>r_y := r_y r + diff, r_h := r_h r - diff\<rparr>)"

definition setRight :: "real \<Rightarrow> QRectF \<Rightarrow> QRectF" where
  "setRight p r = r\<lparr>r_w := p - r_x r\<rparr>"

definition setBottom :: "real \<Rightarrow> QRectF \<Rightarrow> QRectF" where
  "setBottom p r = r\<lparr>r_h := p - r_y r\<rparr>"

definition setWidth :: "real \<Rightarrow> QRectF \<Rightarrow> QRectF" where
  "setWidth v r = r\<lparr>r_w := v\<rparr>"

definition setHeight :: "real \<Rightarrow> QRectF \<Rightarrow> QRectF" where
  "setHeight v r = r\<lparr>r_h := v\<rparr>"

definition translate :: "real \<times> real \<Rightarrow> QRectF \<Rightarrow> QRectF" where
  "translate dlt r = r\<lparr>r_x := r_x r + fst dlt, r_y := r_y r + snd dlt\<rparr>"

definition adjusted :: "real \<Rightarrow> real \<Rightarrow> real \<Rightarrow> real \<Rightarrow> QRectF \<Rightarrow> QRectF" where
  "adjusted dx1 dy1 dx2 dy2 r =
     \<lparr>r_x = r_x r + dx1, r_y = r_y r + dy1, r_w = r_w r + dx2 - dx1, r_h = r_h r + dy2 - dy1\<rparr>"

text \<open>\<^verbatim>\<open>QRectF::contains(QPointF)\<close>: edges included, a rectangle without extent holds no point.\<close>

definition rect_contains :: "QRectF \<Rightarrow> real \<times> real \<Rightarrow> bool" where
  "rect_contains r p =
     (let l = (if r_w r < 0 then r_x r + r_w r else r_x r);
          rr = (if r_w r < 0 then r_x r else r_x r + r_w r);
          t = (if r_h r < 0 then r_y r + r_h r else r_y r);
          b = (if r_h r < 0 then r_y r else r_y r + r_h r)
      in if l = rr then False
         else if fst p < l \<or> fst p > rr then False
         else if t = b then False
         else if snd p < t \<or> snd p > b then False
         else True)"

definition toPoint :: "real \<times> real \<Rightarrow> int \<times> int" where
  "toPoint p = (qRound (fst p), qRound (snd p))"

definition toSize :: "real \<times> real \<Rightarrow> int \<times> int" where
  "toSize p = (qRound (fst p), qRound (snd p))"

definition QRect_to_QRectF :: "int \<times> int \<Rightarrow> int \<times> int \<Rightarrow> QRectF" where
  "QRect_to_QRectF p sz =
     \<lparr>r_x = of_int (fst p), r_y = of_int (snd p), r_w = of_int (fst sz), r_h = of_int (snd sz)\<rparr>"

section \<open>The applet (desktopnotesapplet.cpp)\<close>

datatype ResizeHandle =
  None_handle | TopLeft | Top | TopRight | Left | Right | BottomLeft | Bottom | BottomRight | Body

datatype MouseButton = LeftButton | RightButton | OtherButton

text \<open>
  A mouse event: the button that caused it, whether the left button is among the buttons
  held, the position in the applet's coordinates and the position on the screen.
\<close>

record QGraphicsSceneMouseEvent =
  ev_button :: MouseButton
  ev_buttons_left :: bool
  ev_pos :: "real \<times> real"
  ev_screenPos :: "int \<times> int"

text \<open>
  The applet's state. \<open>geometry\<close> is what \<^verbatim>\<open>geometry()\<close> returns and
  \<^verbatim>\<open>setPreferredGeometry\<close> sets; \<open>config_noteId\<close> is the entry \<^verbatim>\<open>noteId\<close> of the
  applet's configuration group; \<open>m_dbManager\<close> is the singleton store.
\<close>

record DesktopNotesApplet =
  m_note :: Note
  m_dbManager :: DatabaseManager
  m_dragResizeMode :: bool
  m_dragStartPosition :: "real \<times> real"
  m_currentResizeHandle :: ResizeHandle
  m_originalGeometryOnDragStart :: QRectF
  geometry :: QRectF
  visible :: bool
  config_noteId :: int

definition readConfig :: "DesktopNotesApplet \<Rightarrow> DesktopNotesApplet" where
  "readConfig a = a\<lparr>m_note := (m_note a)\<lparr>note_id := config_noteId a\<rparr>\<rparr>"

definition writeConfig :: "DesktopNotesApplet \<Rightarrow> DesktopNotesApplet" where
  "writeConfig a = a\<lparr>config_noteId := note_id (m_note a)\<rparr>"

definition setPreferredGeometry :: "QRectF \<Rightarrow> DesktopNotesApplet \<Rightarrow> DesktopNotesApplet" where
  "setPreferredGeometry g a = a\<lparr>geometry := g\<rparr>"

text \<open>The end of \<^verbatim>\<open>initializeNewNote\<close>: the id is persisted when the note is valid.\<close>

definition persist_id :: "DesktopNotesApplet \<Rightarrow> DesktopNotesApplet" where
  "persist_id a = (if isValid (m_note a) then writeConfig a else a)"

text \<open>
  \<^verbatim>\<open>initializeNewNote\<close> after its first statement: \<open>allNotes\<close> is the listing that
  \<^verbatim>\<open>getAllNotes\<close> returned. The loop takes the first note whose status is
  \<^verbatim>\<open>pending_placement\<close> and leaves.
\<close>

definition initializeNewNote_from :: "Note list \<Rightarrow> DesktopNotesApplet \<Rightarrow> DesktopNotesApplet" where
  "initializeNewNote_from allNotes a =
     (case find (\<lambda>n. status n = ''pending_placement'') allNotes of
        Some adoptableNote \<Rightarrow>
          (let n = adoptableNote\<lparr>status := ''shown''\<rparr>
           in case updateNote n (m_dbManager a) of (ok, d1) \<Rightarrow>
             if ok
             then persist_id (setPreferredGeometry (QRect_to_QRectF (position n) (note_size n))
                                (a\<lparr>m_note := n, m_dbManager := d1\<rparr>))
             else (case addNote Note_default d1 of (newId, d2) \<Rightarrow>
                     persist_id (a\<lparr>m_note := (if newId \<noteq> - 1 then Note_default\<lparr>note_id := newId\<rparr>
                                               else Note_default),
                                   m_dbManager := d2\<rparr>)))
      | None \<Rightarrow>
          (case addNote Note_default (m_dbManager a) of (newId, d1) \<Rightarrow>
             if newId \<noteq> - 1
             then persist_id (a\<lparr>m_note := Note_default\<lparr>note_id := newId\<rparr>, m_dbManager := d1\<rparr>)
             else a\<lparr>m_note := Note_default, m_dbManager := d1\<rparr>))"

definition initializeNewNote :: "QtConv \<Rightarrow> DesktopNotesApplet \<Rightarrow> DesktopNotesApplet" where
  "initializeNewNote cv a =
     (case getAllNotes cv (m_dbManager a) of (allNotes, d1) \<Rightarrow>
        initializeNewNote_from allNotes (a\<lparr>m_dbManager := d1\<rparr>))"

definition loadNoteData :: "QtConv \<Rightarrow> DesktopNotesApplet \<Rightarrow> DesktopNotesApplet" where
  "loadNoteData cv a =
     (if \<not> isValid (m_note a) then a
      else case getNoteById cv (note_id (m_note a)) (m_dbManager a) of (dbNote, d1) \<Rightarrow>
        if isValid dbNote then a\<lparr>m_note := dbNote, m_dbManager := d1\<rparr>
        else a\<lparr>m_note := (m_note a)\<lparr>filepath := []\<rparr>, m_dbManager := d1\<rparr>)"

definition saveNoteData :: "DesktopNotesApplet \<Rightarrow> DesktopNotesApplet" where
  "saveNoteData a =
     (if \<not> isValid (m_note a) then a
      else a\<lparr>m_dbManager := snd (updateNote (m_note a) (m_dbManager a))\<rparr>)"

text \<open>\<^verbatim>\<open>init\<close>, entered after Plasma has called \<^verbatim>\<open>readConfig\<close>.\<close>

definition init :: "QtConv \<Rightarrow> DesktopNotesApplet \<Rightarrow> DesktopNotesApplet" where
  "init cv a =
     (let a1 = (if \<not> isValid (m_note a) then initializeNewNote cv a else a);
          a2 = a1\<lparr>m_dbManager := snd (openDb (m_dbManager a1))\<rparr>;
          a3 = loadNoteData cv a2
      in if status (m_note a3) = ''hidden'' then a3\<lparr>visible := False\<rparr> else a3)"

subsection \<open>Drag/resize mode\<close>

definition handleDragResize :: "DesktopNotesApplet \<Rightarrow> DesktopNotesApplet" where
  "handleDragResize a = a\<lparr>m_dragResizeMode := \<not> m_dragResizeMode a\<rparr>"

definition getResizeHandle :: "DesktopNotesApplet \<Rightarrow> real \<times> real \<Rightarrow> ResizeHandle" where
  "getResizeHandle a p =
     (if \<not> m_dragResizeMode a then None_handle
      else let mg = 10;
               cg = \<lparr>r_x = 0, r_y = 0, r_w = r_w (geometry a), r_h = r_h (geometry a)\<rparr>
      in if rect_contains \<lparr>r_x = rect_left cg, r_y = rect_top cg, r_w = mg, r_h = mg\<rparr> p
           then TopLeft
         else if rect_contains \<lparr>r_x = rect_right cg - mg, r_y = rect_top cg, r_w = mg, r_h = mg\<rparr> p
           then TopRight
         else if rect_contains \<lparr>r_x = rect_left cg, r_y = rect_bottom cg - mg, r_w = mg, r_h = mg\<rparr> p
           then BottomLeft
         else if rect_contains
                   \<lparr>r_x = rect_right cg - mg, r_y = rect_bottom cg - mg, r_w = mg, r_h = mg\<rparr> p
           then BottomRight
         else if rect_contains
                   \<lparr>r_x = rect_left cg, r_y = rect_top cg + mg, r_w = mg,
                    r_h = rect_height cg - 2 * mg\<rparr> p
           then Left
         else if rect_contains
                   \<lparr>r_x = rect_right cg - mg, r_y = rect_top cg + mg, r_w = mg,
                    r_h = rect_height cg - 2 * mg\<rparr> p
           then Right
         else if rect_contains
                   \<lparr>r_x = rect_left cg + mg, r_y = rect_top cg, r_w = rect_width cg - 2 * mg,
                    r_h = mg\<rparr> p
           then Top
         else if rect_contains
                   \<lparr>r_x = rect_left cg + mg, r_y = rect_bottom cg - mg,
                    r_w = rect_width cg - 2 * mg, r_h = mg\<rparr> p
           then Bottom
         else if rect_contains (adjusted mg mg (- mg) (- mg) cg) p then Body
         else None_handle)"

text \<open>
  \<^verbatim>\<open>mousePressEvent\<close>. Outside drag/resize mode a left click runs the quick action (file
  picker or external editor), which is not part of this model: the state is returned
  as it is.
\<close>

definition mousePressEvent :: "QGraphicsSceneMouseEvent \<Rightarrow> DesktopNotesApplet \<Rightarrow> DesktopNotesApplet" where
  "mousePressEvent e a =
     (if m_dragResizeMode a \<and> ev_button e = LeftButton
      then let a1 = a\<lparr>m_currentResizeHandle := getResizeHandle a (ev_pos e)\<rparr>
           in if m_currentResizeHandle a1 \<noteq> None_handle
              then a1\<lparr>m_dragStartPosition :=
                        (of_int (fst (ev_screenPos e)), of_int (snd (ev_screenPos e))),
                      m_originalGeometryOnDragStart := geometry a\<rparr>
              else a1
      else a)"

text \<open>The geometry computed by \<^verbatim>\<open>mouseMoveEvent\<close> for a handle, the captured geometry and the delta.\<close>

definition newGeometry :: "ResizeHandle \<Rightarrow> QRectF \<Rightarrow> real \<times> real \<Rightarrow> QRectF" where
  "newGeometry hd0 orig dlt =
     (if hd0 = Body then translate dlt orig
      else let g1 = (if hd0 = TopLeft \<or> hd0 = Left \<or> hd0 = BottomLeft
                     then setLeft (rect_left orig + fst dlt) orig else orig);
               g2 = (if hd0 = TopLeft \<or> hd0 = Top \<or> hd0 = TopRight
                     then setTop (rect_top orig + snd dlt) g1 else g1);
               g3 = (if hd0 = TopRight \<or> hd0 = Right \<or> hd0 = BottomRight
                     then setRight (rect_right orig + fst dlt) g2 else g2);
               g4 = (if hd0 = BottomLeft \<or> hd0 = Bottom \<or> hd0 = BottomRight
                     then setBottom (rect_bottom orig + snd dlt) g3 else g3);
               g5 = (if rect_width g4 < 50 then setWidth 50 g4 else g4)
           in if rect_height g5 < 30 then setHeight 30 g5 else g5)"

definition mouseMoveEvent :: "QGraphicsSceneMouseEvent \<Rightarrow> DesktopNotesApplet \<Rightarrow> DesktopNotesApplet" where
  "mouseMoveEvent e a =
     (if m_dragResizeMode a \<and> ev_buttons_left e
      then if m_currentResizeHandle a = None_handle then a
           else let dlt = (of_int (fst (ev_screenPos e)) - fst (m_dragStartPosition a),
                           of_int (snd (ev_screenPos e)) - snd (m_dragStartPosition a))
                in setPreferredGeometry
                     (newGeometry (m_currentResizeHandle a) (m_originalGeometryOnDragStart a) dlt) a
      else a)"

definition mouseReleaseEvent :: "QGraphicsSceneMouseEvent \<Rightarrow> DesktopNotesApplet \<Rightarrow> DesktopNotesApplet" where
  "mouseReleaseEvent e a =
     (if m_dragResizeMode a \<and> ev_button e = LeftButton \<and> m_currentResizeHandle a \<noteq> None_handle
      then let n = (m_note a)\<lparr>position := toPoint (r_x (geometry a), r_y (geometry a)),
                               note_size := toSize (r_w (geometry a), r_h (geometry a))\<rparr>
           in (saveNoteData (a\<lparr>m_note := n\<rparr>))\<lparr>m_currentResizeHandle := None_handle\<rparr>
      else a)"

section \<open>The styling dialog (stylingdialog.cpp)\<close>

text \<open>
  The dialog edits the applet's style through a reference, so its slots act on the applet's
  state. An edit is one of the three preview slots; the colour edit carries the colour
  chosen, or nothing when the colour dialog was dismissed or the colour is invalid.

  A dialog ends in one of three ways. The Ok button runs \<^verbatim>\<open>acceptDialog\<close>, which
  accepts. The Cancel button runs \<^verbatim>\<open>rejectDialog\<close>, which puts back the style copied
  at construction and rejects. The Escape key and the window's close button reach
  \<^verbatim>\<open>QDialog::reject()\<close> directly: \<^verbatim>\<open>StylingDialog\<close> overrides neither
  \<^verbatim>\<open>reject()\<close> nor the key and close handlers, so \<^verbatim>\<open>rejectDialog\<close> does not run.
\<close>

datatype StyleEdit = TransparencyChanged int | MarginChanged int | ChooseColorClicked "string option"

datatype DialogCode = Accepted | Rejected

datatype DialogEnd = OkButton | CancelButton | EscapeOrClose

definition set_style :: "NoteStyle \<Rightarrow> DesktopNotesApplet \<Rightarrow> DesktopNotesApplet" where
  "set_style s a = a\<lparr>m_note := (m_note a)\<lparr>style := s\<rparr>\<rparr>"

fun edit_slot :: "StyleEdit \<Rightarrow> DesktopNotesApplet \<Rightarrow> DesktopNotesApplet" where
  "edit_slot (TransparencyChanged v) a =
     set_style ((style (m_note a))\<lparr>transparency := of_int v / 100\<rparr>) a"
| "edit_slot (MarginChanged v) a =
     set_style ((style (m_note a))\<lparr>margin := v\<rparr>) a"
| "edit_slot (ChooseColorClicked (Some c)) a =
     set_style ((style (m_note a))\<lparr>backgroundColor := c\<rparr>) a"
| "edit_slot (ChooseColorClicked None) a = a"

definition rejectDialog :: "NoteStyle \<Rightarrow> DesktopNotesApplet \<Rightarrow> DesktopNotesApplet" where
  "rejectDialog m_originalStyle a = set_style m_originalStyle a"

text \<open>
  The life of the dialog from its construction to the return of \<^verbatim>\<open>exec()\<close>: the
  constructor copies the style, the edits are previewed, and the dialog ends.
\<close>

definition StylingDialog_exec ::
  "StyleEdit list \<Rightarrow> DialogEnd \<Rightarrow> DesktopNotesApplet \<Rightarrow> DialogCode \<times> DesktopNotesApplet" where
  "StylingDialog_exec edits e a =
     (let m_originalStyle = style (m_note a);
          a1 = fold edit_slot edits a
      in case e of
           OkButton \<Rightarrow> (Accepted, a1)
         | CancelButton \<Rightarrow> (Rejected, rejectDialog m_originalStyle a1)
         | EscapeOrClose \<Rightarrow> (Rejected, a1))"

text \<open>\<^verbatim>\<open>handleStyling\<close>: it saves when the dialog was accepted and does nothing otherwise.\<close>

definition handleStyling :: "StyleEdit list \<Rightarrow> DialogEnd \<Rightarrow> DesktopNotesApplet \<Rightarrow> DesktopNotesApplet" where
  "handleStyling edits e a =
     (if \<not> isValid (m_note a) then a
      else case StylingDialog_exec edits e a of (code, a1) \<Rightarrow>
        (case code of Accepted \<Rightarrow> saveNoteData a1 | Rejected \<Rightarrow> a1))"

section \<open>Example values\<close>

text \<open>
  Values for the closed instances below: a conversion table, the state of a store whose file
  does not exist yet, an open store holding given rows, and the row of a note that waits
  for an applet.
\<close>

definition cv0 :: QtConv where
  "cv0 = \<lparr>str_toDouble = (\<lambda>s. 0), str_toInt = (\<lambda>s. 0), num_toString = (\<lambda>x. [])\<rparr>"

definition fresh_db :: "bool \<Rightarrow> bool list \<Rightarrow> DatabaseManager" where
  "fresh_db c fs =
     \<lparr>isOpen = False, canOpen = c, hasTable = False, notes_tbl = [], sqlite_sequence = 0,
      faults = fs\<rparr>"

definition pending_row :: "int \<Rightarrow> row" where
  "pending_row i = bind_row i (Note_default\<lparr>status := ''pending_placement'', position := (300, 100)\<rparr>)"

definition db_with :: "row list \<Rightarrow> bool list \<Rightarrow> DatabaseManager" where
  "db_with rs fs =
     \<lparr>isOpen = True, canOpen = True, hasTable = True, notes_tbl = rs,
      sqlite_sequence = fold max (map c_id rs) 0, faults = fs\<rparr>"

definition example_note :: Note where
  "example_note =
     \<lparr>note_id = - 1, status = ''hidden'', filepath = ''/tmp/a.md'', position = (3, - 4),
      note_size = (120, 80),
      style = \<lparr>transparency = 1 / 4, backgroundColor = ''#102030'', margin = 7\<rparr>\<rparr>"

definition new_applet :: "DatabaseManager \<Rightarrow> DesktopNotesApplet" where
  "new_applet d =
     \<lparr>m_note = Note_default, m_dbManager = d, m_dragResizeMode = False,
      m_dragStartPosition = (0, 0), m_currentResizeHandle = None_handle,
      m_originalGeometryOnDragStart = \<lparr>r_x = 0, r_y = 0, r_w = 0, r_h = 0\<rparr>,
      geometry = \<lparr>r_x = 0, r_y = 0, r_w = 200, r_h = 150\<rparr>, visible = True,
      config_noteId = - 1\<rparr>"

text \<open>A whole gesture: the button goes down, the pointer moves, the button goes up.\<close>

definition drag_gesture ::
  "QGraphicsSceneMouseEvent \<Rightarrow> QGraphicsSceneMouseEvent list \<Rightarrow> QGraphicsSceneMouseEvent
   \<Rightarrow> DesktopNotesApplet \<Rightarrow> DesktopNotesApplet" where
  "drag_gesture press moves release a =
     mouseReleaseEvent release (fold mouseMoveEvent moves (mousePressEvent press a))"

text \<open>
  An applet in drag/resize mode that shows the stored note 1 with the given geometry, and
  the three events of a gesture that starts at \<open>p\<close> (applet coordinates), with the
  pointer at \<open>sp\<close> on the screen, and moves the pointer by \<open>dlt\<close>.
\<close>

definition applet_at :: "int \<times> int \<Rightarrow> int \<times> int \<Rightarrow> DesktopNotesApplet" where
  "applet_at p sz =
     handleDragResize
       ((new_applet (db_with [bind_row 1 (Note_default\<lparr>position := p, note_size := sz\<rparr>)] []))
          \<lparr>m_note := Note_default\<lparr>note_id := 1, position := p, note_size := sz\<rparr>,
           geometry := QRect_to_QRectF p sz, config_noteId := 1\<rparr>)"

definition press_at :: "real \<times> real \<Rightarrow> int \<times> int \<Rightarrow> QGraphicsSceneMouseEvent" where
  "press_at p sp = \<lparr>ev_button = LeftButton, ev_buttons_left = True, ev_pos = p, ev_screenPos = sp\<rparr>"

definition move_by :: "real \<times> real \<Rightarrow> int \<times> int \<Rightarrow> int \<times> int \<Rightarrow> QGraphicsSceneMouseEvent" where
  "move_by p sp dlt =
     \<lparr>ev_button = OtherButton, ev_buttons_left = True,
      ev_pos = (fst p + of_int (fst dlt), snd p + of_int (snd dlt)),
      ev_screenPos = (fst sp + fst dlt, snd sp + snd dlt)\<rparr>"

definition release_by :: "real \<times> real \<Rightarrow> int \<times> int \<Rightarrow> int \<times> int \<Rightarrow> QGraphicsSceneMouseEvent" where
  "release_by p sp dlt =
     \<lparr>ev_button = LeftButton, ev_buttons_left = False,
      ev_pos = (fst p + of_int (fst dlt), snd p + of_int (snd dlt)),
      ev_screenPos = (fst sp + fst dlt, snd sp + snd dlt)\<rparr>"

section \<open>Histories of the store\<close>

text \<open>
  The operations a process performs on the store, and the start of a new process on the
  same file (the handle is closed again; whether it can be opened and which statements
  fail are new). A history is a list of them, run from the state in which the file does
  not exist.
\<close>

datatype store_op =
  Op_openDb
| Op_addNote Note
| Op_updateNote Note
| Op_getNoteById int
| Op_getAllNotes
| Op_deleteNoteById int
| Op_setNoteStatus int string
| Op_restart bool "bool list"

fun apply_op :: "QtConv \<Rightarrow> store_op \<Rightarrow> DatabaseManager \<Rightarrow> DatabaseManager" where
  "apply_op cv Op_openDb d = snd (openDb d)"
| "apply_op cv (Op_addNote n) d = snd (addNote n d)"
| "apply_op cv (Op_updateNote n) d = snd (updateNote n d)"
| "apply_op cv (Op_getNoteById i) d = snd (getNoteById cv i d)"
| "apply_op cv Op_getAllNotes d = snd (getAllNotes cv d)"
| "apply_op cv (Op_deleteNoteById i) d = snd (deleteNoteById i d)"
| "apply_op cv (Op_setNoteStatus i s) d = snd (setNoteStatus i s d)"
| "apply_op cv (Op_restart c fs) d = d\<lparr>isOpen := False, canOpen := c, faults := fs\<rparr>"

definition run_ops :: "QtConv \<Rightarrow> store_op list \<Rightarrow> DatabaseManager \<Rightarrow> DatabaseManager" where
  "run_ops cv ops d = fold (apply_op cv) ops d"

text \<open>The ids of the table are positive and strictly ascending in table order.\<close>

definition ids_ascending :: "DatabaseManager \<Rightarrow> bool" where
  "ids_ascending d =
     (sorted_wrt (<) (map c_id (notes_tbl d)) \<and> list_all (\<lambda>r. 0 < c_id r) (notes_tbl d))"

text \<open>A history that leaves exactly the pending records 3, 7 and 9.\<close>

definition ops_379 :: "store_op list" where
  "ops_379 =
     (let p = Op_addNote (Note_default\<lparr>status := ''pending_placement'', position := (300, 100)\<rparr>)
      in [p, p, p, p, p, p, p, p, p,
          Op_deleteNoteById 1, Op_deleteNoteById 2, Op_deleteNoteById 4,
          Op_deleteNoteById 5, Op_deleteNoteById 6, Op_deleteNoteById 8])"

section \<open>Several applets on one store\<close>

text \<open>
  \<open>k\<close> new applets resolve their identity one after the other on the same store, each
  running \<^verbatim>\<open>initializeNewNote\<close> to its end before the next starts; the result is
  the list of the ids they end with, in order, and the store they leave.
\<close>

fun run_instances ::
  "QtConv \<Rightarrow> nat \<Rightarrow> DesktopNotesApplet \<Rightarrow> DatabaseManager \<Rightarrow> int list \<times> DatabaseManager" where
  "run_instances cv 0 a0 d = ([], d)"
| "run_instances cv (Suc k) a0 d =
     (let a = initializeNewNote cv (a0\<lparr>m_dbManager := d\<rparr>)
      in case run_instances cv k a0 (m_dbManager a) of (ids, d') \<Rightarrow> (note_id (m_note a) # ids, d'))"

text \<open>
  Two new applets whose steps interleave: both read the listing before either writes.
  Every statement is atomic; the interleaving is in the order of the statements.
\<close>

definition two_instances_interleaved ::
  "QtConv \<Rightarrow> DesktopNotesApplet \<Rightarrow> DatabaseManager \<Rightarrow> DesktopNotesApplet \<times> DesktopNotesApplet" where
  "two_instances_interleaved cv a0 d =
     (case getAllNotes cv d of (listA, d1) \<Rightarrow>
      case getAllNotes cv d1 of (listB, d2) \<Rightarrow>
        let a = initializeNewNote_from listA (a0\<lparr>m_dbManager := d2\<rparr>);
            b = initializeNewNote_from listB (a0\<lparr>m_dbManager := m_dbManager a\<rparr>)
        in (a, b))"

text \<open>
  The store executes every statement, its ids are positive, and the record \<open>i\<close> exists
  with status shown.
\<close>

definition adopted_shown :: "int \<Rightarrow> DatabaseManager \<Rightarrow> bool" where
  "adopted_shown i d =
     (isOpen d \<and> hasTable d \<and> faults d = [] \<and> list_all (\<lambda>r. 0 < c_id r) (notes_tbl d)
      \<and> list_all (\<lambda>q. c_id q = i \<longrightarrow> c_status q = ''shown'') (notes_tbl d)
      \<and> list_ex (\<lambda>q. c_id q = i) (notes_tbl d))"

section \<open>Properties of the store\<close>

lemma ensureOpen_notes: "notes_tbl (snd (ensureOpen d)) = notes_tbl d"
  by (simp add: ensureOpen_def openDb_def initializeDatabase_def exec_def
      split: list.splits prod.splits)

lemma exec_notes_notes: "notes_tbl (snd (exec_notes d)) = notes_tbl d"
  by (simp add: exec_notes_def exec_def split: list.splits prod.splits)

lemma getNoteById_notes: "notes_tbl (snd (getNoteById cv i d)) = notes_tbl d"
proof (cases "ensureOpen d")
  case (Pair ok d1)
  have n1: "notes_tbl d1 = notes_tbl d"
    using ensureOpen_notes [of d] Pair by simp
  show ?thesis
  proof (cases "exec_notes d1")
    case inner: (Pair ok2 d2)
    have "notes_tbl d2 = notes_tbl d"
      using exec_notes_notes [of d1] inner n1 by simp
    with Pair inner n1 show ?thesis
      by (simp add: getNoteById_def split: option.splits)
  qed
qed

lemma getNoteById_no_row:
  assumes "\<forall>r \<in> set (notes_tbl d). c_id r \<noteq> i"
  shows "fst (getNoteById cv i d) = Note_default"
proof -
  have absent: "find (\<lambda>r. c_id r = i) (notes_tbl d) = None"
    using assms by (simp add: find_None_iff)
  show ?thesis
  proof (cases "ensureOpen d")
    case (Pair ok d1)
    have n1: "notes_tbl d1 = notes_tbl d"
      using ensureOpen_notes [of d] Pair by simp
    show ?thesis
    proof (cases "exec_notes d1")
      case inner: (Pair ok2 d2)
      have "notes_tbl d2 = notes_tbl d"
        using exec_notes_notes [of d1] inner n1 by simp
      with absent Pair inner show ?thesis
        by (simp add: getNoteById_def)
    qed
  qed
qed

text \<open>
  C10. Reading an id that no row carries returns the default-constructed note: id \<open>-1\<close>
  (so \<open>isValid\<close> is false), status shown, empty filepath, position (50,50), size
  (200,150) and the default style.
\<close>

theorem getNoteById_absent:
  assumes "\<forall>r \<in> set (notes_tbl d). c_id r \<noteq> i"
  shows "fst (getNoteById cv i d) = Note_default
       \<and> \<not> isValid (fst (getNoteById cv i d))
       \<and> Note_default =
           \<lparr>note_id = - 1, status = ''shown'', filepath = [], position = (50, 50),
            note_size = (200, 150),
            style = \<lparr>transparency = 1, backgroundColor = ''#FFFFE0'', margin = 10\<rparr>\<rparr>"
  using getNoteById_no_row [OF assms, of cv]
  by (simp add: isValid_def Note_default_def NoteStyle_default_def)

theorem getNoteById_absent_witness:
  "list_all (\<lambda>r. c_id r \<noteq> 7) (notes_tbl (db_with [pending_row 5] []))
   \<and> fst (getNoteById cv0 7 (db_with [pending_row 5] [])) = Note_default
   \<and> \<not> isValid (fst (getNoteById cv0 7 (db_with [pending_row 5] [])))"
proof -
  have l: "list_all (\<lambda>r. c_id r \<noteq> 7) (notes_tbl (db_with [pending_row 5] []))"
    by (simp add: db_with_def pending_row_def bind_row_def)
  then have h: "\<forall>r \<in> set (notes_tbl (db_with [pending_row 5] [])). c_id r \<noteq> 7"
    by (simp only: list_all_iff)
  from l getNoteById_absent [OF h, of cv0] show ?thesis by blast
qed

section \<open>Round trip through the store\<close>

lemma style_roundtrip:
  "styleFromVariantMap cv (toVariantMap (fromVariantMap (styleToVariantMap s))) = s"
  by (simp add: styleFromVariantMap_def toVariantMap_def fromVariantMap_def styleToVariantMap_def
      map_value_def qRound64_def)

lemma read_bind: "read_row cv (bind_row i n) = n\<lparr>note_id := i\<rparr>"
  by (simp add: read_row_def bind_row_def style_roundtrip)

lemma fold_max_ge: "(a::int) \<le> fold max xs a"
  by (induction xs arbitrary: a) (auto intro: order_trans [OF max.cobounded2])

lemma fold_max_upper: "x \<in> set xs \<Longrightarrow> (x::int) \<le> fold max xs a"
proof (induction xs arbitrary: a)
  case Nil
  then show ?case by simp
next
  case (Cons y ys)
  show ?case
  proof (cases "x = y")
    case True
    have "y \<le> max y a" by simp
    also have "\<dots> \<le> fold max ys (max y a)" by (rule fold_max_ge)
    finally show ?thesis using True by simp
  next
    case False
    with Cons show ?thesis by simp
  qed
qed

lemma next_rowid_fresh: "r \<in> set (notes_tbl d) \<Longrightarrow> c_id r < next_rowid d"
  using fold_max_upper [of "c_id r" "map c_id (notes_tbl d)" 0]
  by (simp add: next_rowid_def)

lemma find_append_fresh:
  "\<forall>r \<in> set rs. \<not> P r \<Longrightarrow> P x \<Longrightarrow> find P (rs @ [x]) = Some x"
  by (induction rs) auto

text \<open>
  C7. When \<^verbatim>\<open>addNote\<close> succeeds and the next statement executes, \<^verbatim>\<open>getNoteById\<close> with
  the returned id gives back the input note in every field (status, filepath, position,
  size and the three style components, which pass through the JSON object), with the
  assigned id in place of the input's.
\<close>

theorem addNote_getNoteById_roundtrip:
  assumes add: "addNote n d = (newId, d')"
    and ok: "newId \<noteq> - 1"
    and nofault: "faults d' = [] \<or> \<not> hd (faults d')"
  shows "fst (getNoteById cv newId d') = n\<lparr>note_id := newId\<rparr>"
proof -
  obtain ok1 d1 where e1: "ensureOpen d = (ok1, d1)" by (cases "ensureOpen d")
  obtain ok2 d2 where e2: "exec_notes d1 = (ok2, d2)" by (cases "exec_notes d1")
  from add ok e1 e2 have ok1: ok1 and ok2: ok2
    by (auto simp: addNote_def split: if_splits)
  from add e1 e2 ok1 ok2 have d': "d' = d2\<lparr>notes_tbl := notes_tbl d2 @ [bind_row newId n],
                            sqlite_sequence := newId\<rparr>" and nid: "newId = next_rowid d2"
    by (auto simp: addNote_def Let_def)
  have tbl: "hasTable d2" using e2 ok2 by (auto simp: exec_notes_def split: prod.splits)
  have opn: "isOpen d2" using e1 e2 ok1
    by (auto simp: ensureOpen_def openDb_def initializeDatabase_def exec_notes_def exec_def
        split: if_splits prod.splits list.splits)
  have fresh: "\<forall>r \<in> set (notes_tbl d2). \<not> (c_id r = newId)"
  proof
    fix r assume "r \<in> set (notes_tbl d2)"
    then have "c_id r < newId" using next_rowid_fresh [of r d2] nid by simp
    then show "\<not> (c_id r = newId)" by simp
  qed
  have found: "find (\<lambda>r. c_id r = newId) (notes_tbl d') = Some (bind_row newId n)"
    unfolding d' using find_append_fresh [OF fresh, of "bind_row newId n"]
    by (simp add: bind_row_def)
  have eo: "ensureOpen d' = (True, d')" using opn d' by (simp add: ensureOpen_def)
  obtain d3 where e3: "exec_notes d' = (True, d3)" and n3: "notes_tbl d3 = notes_tbl d'"
    using nofault tbl d'
    by (cases "faults d'") (auto simp: exec_notes_def exec_def)
  show ?thesis
    using eo e3 n3 found by (simp add: getNoteById_def read_bind)
qed

theorem addNote_getNoteById_roundtrip_witness:
  "addNote example_note (fresh_db True []) = (1, snd (addNote example_note (fresh_db True [])))
   \<and> (1::int) \<noteq> - 1
   \<and> (faults (snd (addNote example_note (fresh_db True []))) = []
        \<or> \<not> hd (faults (snd (addNote example_note (fresh_db True [])))))
   \<and> fst (getNoteById cv0 1 (snd (addNote example_note (fresh_db True []))))
       = example_note\<lparr>note_id := 1\<rparr>"
proof -
  have a: "addNote example_note (fresh_db True [])
           = (1, snd (addNote example_note (fresh_db True [])))"
    by (simp add: addNote_def fresh_db_def ensureOpen_def openDb_def initializeDatabase_def
        exec_def exec_notes_def next_rowid_def)
  have b: "(1::int) \<noteq> - 1" by simp
  have f: "faults (snd (addNote example_note (fresh_db True []))) = []
           \<or> \<not> hd (faults (snd (addNote example_note (fresh_db True []))))"
    by (simp add: addNote_def fresh_db_def ensureOpen_def openDb_def initializeDatabase_def
        exec_def exec_notes_def next_rowid_def)
  from a b f addNote_getNoteById_roundtrip [OF a b f, of cv0] show ?thesis
    by (intro conjI)
qed

text \<open>The definitions unfolded when a closed instance is evaluated.\<close>

lemmas store_defs =
  ensureOpen_def openDb_def initializeDatabase_def exec_def exec_notes_def next_rowid_def
  db_with_def fresh_db_def pending_row_def bind_row_def read_row_def
  styleToVariantMap_def styleFromVariantMap_def fromVariantMap_def toVariantMap_def
  map_value_def qRound_def qRound64_def Note_default_def NoteStyle_default_def cv0_def

section \<open>Status updates\<close>

lemma operational_ensureOpen: "isOpen d \<Longrightarrow> ensureOpen d = (True, d)"
  by (simp add: ensureOpen_def)

lemma operational_exec_notes: "hasTable d \<Longrightarrow> faults d = [] \<Longrightarrow> exec_notes d = (True, d)"
  by (simp add: exec_notes_def exec_def)

lemma find_map_status:
  "\<exists>r \<in> set rs. c_id r = i \<Longrightarrow>
   \<exists>q. find (\<lambda>r. c_id r = i) (map (\<lambda>r. if c_id r = i then r\<lparr>c_status := s\<rparr> else r) rs) = Some q
       \<and> c_status q = s"
  by (induction rs) auto

text \<open>
  C4, as the code has it. \<^verbatim>\<open>setNoteStatus\<close> does not look at the status text: on a store
  that executes its statements it returns true for every string and the row then carries
  that string. Only the caller \<^verbatim>\<open>NotesTableModel::setData\<close> restricts the value: for a
  string other than shown and hidden it returns false and leaves model and store alone.
\<close>

theorem setNoteStatus_any_string:
  assumes "isOpen d" and "hasTable d" and "faults d = []"
    and "\<exists>r \<in> set (notes_tbl d). c_id r = i"
  shows "fst (setNoteStatus i s d)
       \<and> status (fst (getNoteById cv i (snd (setNoteStatus i s d)))) = s
       \<and> (s \<noteq> ''shown'' \<and> s \<noteq> ''hidden'' \<longrightarrow> setData row_ix col edit_role s t = (False, t))"
proof -
  let ?d' = "d\<lparr>notes_tbl := map (\<lambda>r. if c_id r = i then r\<lparr>c_status := s\<rparr> else r) (notes_tbl d)\<rparr>"
  have set: "setNoteStatus i s d = (True, ?d')"
    using assms(1-3) by (simp add: setNoteStatus_def operational_ensureOpen operational_exec_notes)
  obtain q where q: "find (\<lambda>r. c_id r = i) (notes_tbl ?d') = Some q" and qs: "c_status q = s"
    using find_map_status [OF assms(4), of s] by auto
  have "getNoteById cv i ?d' = (read_row cv q, ?d')"
    using assms(1-3) q by (simp add: getNoteById_def operational_ensureOpen operational_exec_notes)
  then have rd: "status (fst (getNoteById cv i ?d')) = s"
    using qs by (simp add: read_row_def)
  have guard: "s \<noteq> ''shown'' \<and> s \<noteq> ''hidden'' \<longrightarrow> setData row_ix col edit_role s t = (False, t)"
    by (simp add: setData_def Let_def)
  from set rd guard show ?thesis by simp
qed

theorem setNoteStatus_any_string_witness:
  "isOpen (db_with [bind_row 3 Note_default] [])
   \<and> hasTable (db_with [bind_row 3 Note_default] [])
   \<and> faults (db_with [bind_row 3 Note_default] []) = []
   \<and> list_ex (\<lambda>r. c_id r = 3) (notes_tbl (db_with [bind_row 3 Note_default] []))
   \<and> fst (setNoteStatus 3 ''pending_placement'' (db_with [bind_row 3 Note_default] []))
   \<and> status (fst (getNoteById cv0 3
        (snd (setNoteStatus 3 ''pending_placement'' (db_with [bind_row 3 Note_default] [])))))
       = ''pending_placement''
   \<and> setData 0 1 True ''archived''
        \<lparr>m_notes = [Note_default\<lparr>note_id := 3\<rparr>],
         tm_dbManager = db_with [bind_row 3 Note_default] []\<rparr>
       = (False, \<lparr>m_notes = [Note_default\<lparr>note_id := 3\<rparr>],
                 tm_dbManager = db_with [bind_row 3 Note_default] []\<rparr>)"
proof -
  have h1: "isOpen (db_with [bind_row 3 Note_default] [])" by (simp add: db_with_def)
  have h2: "hasTable (db_with [bind_row 3 Note_default] [])" by (simp add: db_with_def)
  have h3: "faults (db_with [bind_row 3 Note_default] []) = []" by (simp add: db_with_def)
  have h4: "\<exists>r \<in> set (notes_tbl (db_with [bind_row 3 Note_default] [])). c_id r = 3"
    by (simp add: db_with_def bind_row_def)
  have s: "''archived'' \<noteq> ''shown'' \<and> ''archived'' \<noteq> ''hidden''" by simp
  note t1 = setNoteStatus_any_string [OF h1 h2 h3 h4, of "''pending_placement''" cv0]
  note t2 = setNoteStatus_any_string [OF h1 h2 h3 h4, of "''archived''" cv0 0 1 True
      "\<lparr>m_notes = [Note_default\<lparr>note_id := 3\<rparr>],
         tm_dbManager = db_with [bind_row 3 Note_default] []\<rparr>"]
  from h4 have h4': "list_ex (\<lambda>r. c_id r = 3) (notes_tbl (db_with [bind_row 3 Note_default] []))"
    by (simp only: list_ex_iff)
  from h1 h2 h3 h4' t1 t2 s show ?thesis by blast
qed

text \<open>
  The claim C4 as stated fails: \<^verbatim>\<open>setNoteStatus(3, "archived")\<close> on a store holding the
  record 3 with status shown returns true and the stored status becomes archived.
\<close>

theorem setNoteStatus_archived_counterexample:
  "fst (setNoteStatus 3 ''archived'' (db_with [bind_row 3 Note_default] [])) = True
   \<and> map c_status (notes_tbl (db_with [bind_row 3 Note_default] [])) = [''shown'']
   \<and> map c_status (notes_tbl (snd (setNoteStatus 3 ''archived''
        (db_with [bind_row 3 Note_default] [])))) = [''archived'']"
  by (simp add: setNoteStatus_def store_defs)

section \<open>Start-up with a remembered id\<close>

lemma openDb_notes: "notes_tbl (snd (openDb d)) = notes_tbl d"
  by (simp add: openDb_def initializeDatabase_def exec_def split: list.splits prod.splits)

text \<open>
  C8, as the code has it. An applet that starts with a remembered id whose record is gone
  does not enter the adoption protocol: \<^verbatim>\<open>init\<close> keeps the remembered id, clears the
  filepath, and leaves the rows of the store and the persisted id as they were, so no
  pending record is adopted and no record is created.
\<close>

theorem init_remembered_id_not_found:
  assumes valid: "isValid (m_note a)"
    and absent: "\<forall>r \<in> set (notes_tbl (m_dbManager a)). c_id r \<noteq> note_id (m_note a)"
  shows "note_id (m_note (init cv a)) = note_id (m_note a)
       \<and> filepath (m_note (init cv a)) = []
       \<and> notes_tbl (m_dbManager (init cv a)) = notes_tbl (m_dbManager a)
       \<and> config_noteId (init cv a) = config_noteId a"
proof -
  let ?d = "snd (openDb (m_dbManager a))"
  let ?a2 = "a\<lparr>m_dbManager := ?d\<rparr>"
  have n: "notes_tbl ?d = notes_tbl (m_dbManager a)" by (rule openDb_notes)
  have "fst (getNoteById cv (note_id (m_note a)) ?d) = Note_default"
    using absent n by (intro getNoteById_no_row) simp
  moreover have "notes_tbl (snd (getNoteById cv (note_id (m_note a)) ?d)) = notes_tbl (m_dbManager a)"
    using getNoteById_notes [of cv "note_id (m_note a)" ?d] n by simp
  ultimately have l: "loadNoteData cv ?a2
      = a\<lparr>m_note := (m_note a)\<lparr>filepath := []\<rparr>,
           m_dbManager := snd (getNoteById cv (note_id (m_note a)) ?d)\<rparr>"
    and nn: "notes_tbl (snd (getNoteById cv (note_id (m_note a)) ?d)) = notes_tbl (m_dbManager a)"
    using valid
    by (auto simp: loadNoteData_def isValid_def Note_default_def split: prod.splits)
  have "init cv a = (let a3 = loadNoteData cv ?a2
                     in if status (m_note a3) = ''hidden'' then a3\<lparr>visible := False\<rparr> else a3)"
    using valid by (simp add: init_def Let_def)
  with l nn show ?thesis by (simp add: Let_def)
qed

theorem init_remembered_id_not_found_witness:
  "isValid (m_note (readConfig ((new_applet (db_with [pending_row 5] []))\<lparr>config_noteId := 9\<rparr>)))
   \<and> list_all (\<lambda>r. c_id r \<noteq> note_id (m_note
          (readConfig ((new_applet (db_with [pending_row 5] []))\<lparr>config_noteId := 9\<rparr>))))
        (notes_tbl (m_dbManager
          (readConfig ((new_applet (db_with [pending_row 5] []))\<lparr>config_noteId := 9\<rparr>))))
   \<and> note_id (m_note (init cv0
        (readConfig ((new_applet (db_with [pending_row 5] []))\<lparr>config_noteId := 9\<rparr>)))) = 9
   \<and> notes_tbl (m_dbManager (init cv0
        (readConfig ((new_applet (db_with [pending_row 5] []))\<lparr>config_noteId := 9\<rparr>))))
      = [pending_row 5]"
proof -
  let ?a = "readConfig ((new_applet (db_with [pending_row 5] []))\<lparr>config_noteId := 9\<rparr>)"
  have v: "isValid (m_note ?a)"
    by (simp add: readConfig_def new_applet_def isValid_def)
  have ab: "\<forall>r \<in> set (notes_tbl (m_dbManager ?a)). c_id r \<noteq> note_id (m_note ?a)"
    by (simp add: readConfig_def new_applet_def db_with_def pending_row_def bind_row_def)
  have i9: "note_id (m_note ?a) = 9" by (simp add: readConfig_def new_applet_def)
  have rs: "notes_tbl (m_dbManager ?a) = [pending_row 5]"
    by (simp add: readConfig_def new_applet_def db_with_def)
  from ab have al: "list_all (\<lambda>r. c_id r \<noteq> note_id (m_note ?a)) (notes_tbl (m_dbManager ?a))"
    by (simp only: list_all_iff)
  from init_remembered_id_not_found [OF v ab, of cv0] i9 rs
  have c1: "note_id (m_note (init cv0 ?a)) = 9"
    and c2: "notes_tbl (m_dbManager (init cv0 ?a)) = [pending_row 5]"
    by simp_all
  from v al c1 c2 show ?thesis by (intro conjI)
qed

text \<open>
  The claim C8 as stated fails. The store holds the pending record 5 and the applet
  remembers id 9, which no row carries: after \<^verbatim>\<open>init\<close> the applet still has id 9 and
  record 5 still waits, whereas an applet that remembers nothing adopts record 5.
\<close>

theorem init_remembered_id_counterexample:
  "note_id (m_note (init cv0
      (readConfig ((new_applet (db_with [pending_row 5] []))\<lparr>config_noteId := 9\<rparr>)))) = 9
   \<and> map c_status (notes_tbl (m_dbManager (init cv0
      (readConfig ((new_applet (db_with [pending_row 5] []))\<lparr>config_noteId := 9\<rparr>)))))
      = [''pending_placement'']
   \<and> note_id (m_note (init cv0 (readConfig (new_applet (db_with [pending_row 5] []))))) = 5
   \<and> map c_status (notes_tbl (m_dbManager (init cv0
      (readConfig (new_applet (db_with [pending_row 5] [])))))) = [''shown'']"
  by (simp add: init_def loadNoteData_def initializeNewNote_def initializeNewNote_from_def
      getAllNotes_def getNoteById_def updateNote_def addNote_def persist_id_def writeConfig_def
      setPreferredGeometry_def QRect_to_QRectF_def readConfig_def new_applet_def isValid_def
      store_defs)

section \<open>The styling dialog\<close>

lemma set_style_set_style: "set_style s (set_style s' a) = set_style s a"
  by (simp add: set_style_def)

lemma set_style_same: "set_style (style (m_note a)) a = a"
  by (simp add: set_style_def)

lemma edit_slot_style_only: "\<exists>s. edit_slot e a = set_style s a"
proof (cases e)
  case (ChooseColorClicked c)
  then show ?thesis
  proof (cases c)
    case None
    with ChooseColorClicked have "edit_slot e a = set_style (style (m_note a)) a"
      by (simp add: set_style_same)
    then show ?thesis ..
  qed auto
qed auto

lemma fold_edit_slot_style_only: "\<exists>s. fold edit_slot edits a = set_style s a"
proof (induction edits arbitrary: a)
  case Nil
  have "fold edit_slot [] a = set_style (style (m_note a)) a" by (simp add: set_style_same)
  then show ?case ..
next
  case (Cons e es)
  obtain s where s: "edit_slot e a = set_style s a" using edit_slot_style_only by blast
  obtain s' where "fold edit_slot es (set_style s a) = set_style s' (set_style s a)"
    using Cons.IH by blast
  with s have "fold edit_slot (e # es) a = set_style s' a"
    by (simp add: set_style_set_style)
  then show ?case ..
qed

text \<open>Ended by the Cancel button, the dialog leaves the applet and the store as they were.\<close>

lemma handleStyling_cancel_button: "handleStyling edits CancelButton a = a"
proof -
  obtain s where s: "fold edit_slot edits a = set_style s a"
    using fold_edit_slot_style_only by blast
  then show ?thesis
    by (simp add: handleStyling_def StylingDialog_exec_def rejectDialog_def
        set_style_set_style set_style_same)
qed

text \<open>The store is written only when the dialog is accepted, and then by one \<^verbatim>\<open>updateNote\<close>.\<close>

lemma handleStyling_store:
  "m_dbManager (handleStyling edits CancelButton a) = m_dbManager a"
  "m_dbManager (handleStyling edits EscapeOrClose a) = m_dbManager a"
  "m_dbManager (handleStyling edits OkButton a)
     = snd (updateNote (m_note (handleStyling edits OkButton a)) (m_dbManager a))"
proof -
  obtain s where s: "fold edit_slot edits a = set_style s a"
    using fold_edit_slot_style_only by blast
  show "m_dbManager (handleStyling edits CancelButton a) = m_dbManager a"
    by (simp add: handleStyling_cancel_button)
  show "m_dbManager (handleStyling edits EscapeOrClose a) = m_dbManager a"
    using s by (simp add: handleStyling_def StylingDialog_exec_def set_style_def)
  show "m_dbManager (handleStyling edits OkButton a)
     = snd (updateNote (m_note (handleStyling edits OkButton a)) (m_dbManager a))"
  proof (cases "isValid (m_note a)")
    case True
    then have "isValid (m_note (set_style s a))" by (simp add: set_style_def isValid_def)
    with True s show ?thesis
      by (simp add: handleStyling_def StylingDialog_exec_def saveNoteData_def set_style_def)
  next
    case False
    then show ?thesis by (simp add: handleStyling_def updateNote_def isValid_def)
  qed
qed

text \<open>
  C9. The pre-dialog style is restored only by the slot of the Cancel button. On the note 1
  with the default style, three edits are previewed and the dialog is dismissed with the
  Escape key or the close button: the dialog is rejected and the store is not written, but
  the note keeps the previewed style (transparency 1/4, colour #112233, margin 42)
  instead of the style it had before the dialog opened. The same edits ended by the Cancel
  button leave the applet as it was.
\<close>

theorem handleStyling_dismissed_keeps_preview:
  "style (m_note (applet_at (100, 100) (200, 150)))
     = \<lparr>transparency = 1, backgroundColor = ''#FFFFE0'', margin = 10\<rparr>
   \<and> fst (StylingDialog_exec
        [TransparencyChanged 25, ChooseColorClicked (Some ''#112233''), MarginChanged 42]
        EscapeOrClose (applet_at (100, 100) (200, 150))) = Rejected
   \<and> style (m_note (handleStyling
        [TransparencyChanged 25, ChooseColorClicked (Some ''#112233''), MarginChanged 42]
        EscapeOrClose (applet_at (100, 100) (200, 150))))
     = \<lparr>transparency = 1 / 4, backgroundColor = ''#112233'', margin = 42\<rparr>
   \<and> m_dbManager (handleStyling
        [TransparencyChanged 25, ChooseColorClicked (Some ''#112233''), MarginChanged 42]
        EscapeOrClose (applet_at (100, 100) (200, 150)))
     = m_dbManager (applet_at (100, 100) (200, 150))
   \<and> style (m_note (handleStyling
        [TransparencyChanged 25, ChooseColorClicked (Some ''#112233''), MarginChanged 42]
        CancelButton (applet_at (100, 100) (200, 150))))
     = \<lparr>transparency = 1, backgroundColor = ''#FFFFE0'', margin = 10\<rparr>"
  by (simp add: handleStyling_def StylingDialog_exec_def rejectDialog_def set_style_def
      applet_at_def handleDragResize_def new_applet_def isValid_def Note_default_def
      NoteStyle_default_def)

section \<open>Drag and resize\<close>

lemmas rect_defs =
  rect_left_def rect_top_def rect_right_def rect_bottom_def rect_width_def rect_height_def
  setLeft_def setTop_def setRight_def setBottom_def setWidth_def setHeight_def translate_def
  adjusted_def rect_contains_def toPoint_def toSize_def QRect_to_QRectF_def

lemmas gesture_defs =
  drag_gesture_def mousePressEvent_def mouseMoveEvent_def mouseReleaseEvent_def
  getResizeHandle_def newGeometry_def setPreferredGeometry_def saveNoteData_def
  handleDragResize_def applet_at_def press_at_def move_by_def release_by_def new_applet_def
  isValid_def updateNote_def

lemma newGeometry_fields:
  "r_x (newGeometry hd0 g dlt)
     = (if hd0 = TopLeft \<or> hd0 = Left \<or> hd0 = BottomLeft \<or> hd0 = Body
        then r_x g + fst dlt else r_x g)"
  "r_y (newGeometry hd0 g dlt)
     = (if hd0 = TopLeft \<or> hd0 = Top \<or> hd0 = TopRight \<or> hd0 = Body
        then r_y g + snd dlt else r_y g)"
  "r_w (newGeometry hd0 g dlt)
     = (if hd0 = Body then r_w g
        else max 50 (if hd0 = TopLeft \<or> hd0 = Left \<or> hd0 = BottomLeft then r_w g - fst dlt
                     else if hd0 = TopRight \<or> hd0 = Right \<or> hd0 = BottomRight
                       then r_w g + fst dlt
                     else r_w g))"
  "r_h (newGeometry hd0 g dlt)
     = (if hd0 = Body then r_h g
        else max 30 (if hd0 = TopLeft \<or> hd0 = Top \<or> hd0 = TopRight then r_h g - snd dlt
                     else if hd0 = BottomLeft \<or> hd0 = Bottom \<or> hd0 = BottomRight
                       then r_h g + snd dlt
                     else r_h g))"
  by (cases hd0; simp add: newGeometry_def rect_defs Let_def max_def)+

lemma qRound_ge:
  assumes "of_int k \<le> x" and "x \<le> 2147483647" and "- 2147483648 \<le> k"
  shows "k \<le> qRound x"
proof -
  have lo: "k \<le> \<lfloor>x + 1 / 2\<rfloor>" using assms(1) by (simp add: le_floor_iff)
  have "x + 1 / 2 < 2147483648" using assms(2) by simp
  then have "\<lfloor>x + 1 / 2\<rfloor> < 2147483648" by (simp add: floor_less_iff)
  then have hi: "\<lfloor>x + 1 / 2\<rfloor> \<le> 2147483647" by simp
  from lo assms(3) have "- 2147483648 \<le> \<lfloor>x + 1 / 2\<rfloor>" by (rule order_trans [rotated])
  with hi have "qRound x = \<lfloor>x + 1 / 2\<rfloor>" by (simp add: qRound_def Let_def)
  with lo show ?thesis by simp
qed

lemma saveNoteData_frame:
  "m_dbManager (saveNoteData a) = snd (updateNote (m_note a) (m_dbManager a))"
  "m_note (saveNoteData a) = m_note a"
  "geometry (saveNoteData a) = geometry a"
  "m_dragResizeMode (saveNoteData a) = m_dragResizeMode a"
  by (simp_all add: saveNoteData_def isValid_def updateNote_def)

text \<open>While a handle is held, every move recomputes the geometry from the captured one.\<close>

lemma moves_state:
  assumes "m_dragResizeMode s" and "m_currentResizeHandle s \<noteq> None_handle"
    and "list_all ev_buttons_left moves" and "moves \<noteq> []"
  shows "fold mouseMoveEvent moves s
           = s\<lparr>geometry := newGeometry (m_currentResizeHandle s) (m_originalGeometryOnDragStart s)
                  (of_int (fst (ev_screenPos (last moves))) - fst (m_dragStartPosition s),
                   of_int (snd (ev_screenPos (last moves))) - snd (m_dragStartPosition s))\<rparr>"
  using assms
proof (induction moves arbitrary: s)
  case Nil
  then show ?case by simp
next
  case (Cons m ms)
  let ?s1 = "mouseMoveEvent m s"
  have s1: "?s1 = s\<lparr>geometry := newGeometry (m_currentResizeHandle s)
                  (m_originalGeometryOnDragStart s)
                  (of_int (fst (ev_screenPos m)) - fst (m_dragStartPosition s),
                   of_int (snd (ev_screenPos m)) - snd (m_dragStartPosition s))\<rparr>"
    using Cons.prems by (simp add: mouseMoveEvent_def setPreferredGeometry_def)
  show ?case
  proof (cases "ms = []")
    case True
    with s1 show ?thesis by simp
  next
    case False
    have "fold mouseMoveEvent ms ?s1
           = ?s1\<lparr>geometry := newGeometry (m_currentResizeHandle ?s1)
                  (m_originalGeometryOnDragStart ?s1)
                  (of_int (fst (ev_screenPos (last ms))) - fst (m_dragStartPosition ?s1),
                   of_int (snd (ev_screenPos (last ms))) - snd (m_dragStartPosition ?s1))\<rparr>"
      using Cons.prems False s1 by (intro Cons.IH) simp_all
    with s1 False show ?thesis by simp
  qed
qed

lemma gesture_state:
  assumes "m_dragResizeMode a" and "ev_button press = LeftButton"
    and "getResizeHandle a (ev_pos press) = hd0" and "hd0 \<noteq> None_handle"
    and "list_all ev_buttons_left moves" and "moves \<noteq> []"
    and "ev_button release = LeftButton"
  shows "geometry (drag_gesture press moves release a)
           = newGeometry hd0 (geometry a)
               (of_int (fst (ev_screenPos (last moves))) - of_int (fst (ev_screenPos press)),
                of_int (snd (ev_screenPos (last moves))) - of_int (snd (ev_screenPos press)))"
    and "position (m_note (drag_gesture press moves release a))
           = toPoint (r_x (geometry (drag_gesture press moves release a)),
                      r_y (geometry (drag_gesture press moves release a)))"
    and "note_size (m_note (drag_gesture press moves release a))
           = toSize (r_w (geometry (drag_gesture press moves release a)),
                     r_h (geometry (drag_gesture press moves release a)))"
    and "m_dbManager (drag_gesture press moves release a)
           = snd (updateNote (m_note (drag_gesture press moves release a)) (m_dbManager a))"
    and "m_currentResizeHandle (drag_gesture press moves release a) = None_handle"
proof -
  let ?s = "mousePressEvent press a"
  have s: "?s = a\<lparr>m_currentResizeHandle := hd0,
                  m_dragStartPosition :=
                    (of_int (fst (ev_screenPos press)), of_int (snd (ev_screenPos press))),
                  m_originalGeometryOnDragStart := geometry a\<rparr>"
    using assms(1-4) by (simp add: mousePressEvent_def Let_def)
  have pre: "m_dragResizeMode ?s" "m_currentResizeHandle ?s \<noteq> None_handle"
    using s assms(1,4) by simp_all
  note mv = moves_state [OF pre assms(5,6)]
  show "geometry (drag_gesture press moves release a)
           = newGeometry hd0 (geometry a)
               (of_int (fst (ev_screenPos (last moves))) - of_int (fst (ev_screenPos press)),
                of_int (snd (ev_screenPos (last moves))) - of_int (snd (ev_screenPos press)))"
    and "position (m_note (drag_gesture press moves release a))
           = toPoint (r_x (geometry (drag_gesture press moves release a)),
                      r_y (geometry (drag_gesture press moves release a)))"
    and "note_size (m_note (drag_gesture press moves release a))
           = toSize (r_w (geometry (drag_gesture press moves release a)),
                     r_h (geometry (drag_gesture press moves release a)))"
    and "m_dbManager (drag_gesture press moves release a)
           = snd (updateNote (m_note (drag_gesture press moves release a)) (m_dbManager a))"
    and "m_currentResizeHandle (drag_gesture press moves release a) = None_handle"
    unfolding drag_gesture_def mv using s assms(1,4,7)
    by (simp_all add: mouseReleaseEvent_def saveNoteData_frame Let_def)
qed

text \<open>
  C5, as the code has it. Take a gesture (press, one or more moves with the button held,
  release) on an edge or corner handle, or on the body of a rectangle that is at least 50
  by 30, whose resulting width and height do not exceed 2147483647, the largest
  \<^verbatim>\<open>int\<close>. It commits a size of at least 50 by 30, and the store receives that note in
  one \<^verbatim>\<open>updateNote\<close>. With the delta of the last move, the left and top of the
  committed rectangle are where the handle's rules put them (moved by the delta for a left
  or top handle and for the body, otherwise as captured); for the body the size is the
  captured one, and for an edge or a corner width and height are the adjusted values
  raised to 50 and 30. So the clamp keeps the left and top edges and recomputes the right
  and bottom edges, whichever handle is dragged.
\<close>

theorem resize_gesture_minimum_size:
  assumes "m_dragResizeMode a" and "ev_button press = LeftButton"
    and "getResizeHandle a (ev_pos press) = hd0" and "hd0 \<noteq> None_handle"
    and "hd0 = Body \<longrightarrow> 50 \<le> rect_width (geometry a) \<and> 30 \<le> rect_height (geometry a)"
    and "list_all ev_buttons_left moves" and "moves \<noteq> []"
    and "ev_button release = LeftButton"
    and "dx = of_int (fst (ev_screenPos (last moves))) - of_int (fst (ev_screenPos press))"
    and "dy = of_int (snd (ev_screenPos (last moves))) - of_int (snd (ev_screenPos press))"
    and "a' = drag_gesture press moves release a"
    and "rect_width (geometry a') \<le> 2147483647" and "rect_height (geometry a') \<le> 2147483647"
  shows "50 \<le> fst (note_size (m_note a')) \<and> 30 \<le> snd (note_size (m_note a'))
       \<and> note_size (m_note a') = toSize (rect_width (geometry a'), rect_height (geometry a'))
       \<and> position (m_note a') = toPoint (rect_left (geometry a'), rect_top (geometry a'))
       \<and> m_dbManager a' = snd (updateNote (m_note a') (m_dbManager a))
       \<and> rect_left (geometry a')
           = (if hd0 = TopLeft \<or> hd0 = Left \<or> hd0 = BottomLeft \<or> hd0 = Body
              then rect_left (geometry a) + dx else rect_left (geometry a))
       \<and> rect_top (geometry a')
           = (if hd0 = TopLeft \<or> hd0 = Top \<or> hd0 = TopRight \<or> hd0 = Body
              then rect_top (geometry a) + dy else rect_top (geometry a))
       \<and> rect_width (geometry a')
           = (if hd0 = Body then rect_width (geometry a)
              else max 50 (if hd0 = TopLeft \<or> hd0 = Left \<or> hd0 = BottomLeft
                             then rect_width (geometry a) - dx
                           else if hd0 = TopRight \<or> hd0 = Right \<or> hd0 = BottomRight
                             then rect_width (geometry a) + dx
                           else rect_width (geometry a)))
       \<and> rect_height (geometry a')
           = (if hd0 = Body then rect_height (geometry a)
              else max 30 (if hd0 = TopLeft \<or> hd0 = Top \<or> hd0 = TopRight
                             then rect_height (geometry a) - dy
                           else if hd0 = BottomLeft \<or> hd0 = Bottom \<or> hd0 = BottomRight
                             then rect_height (geometry a) + dy
                           else rect_height (geometry a)))"
proof -
  note st = gesture_state [OF assms(1-4) assms(6-8)]
  have g: "geometry a' = newGeometry hd0 (geometry a) (dx, dy)"
    using st(1) assms(9-11) by simp
  note geo = newGeometry_fields [of hd0 "geometry a" "(dx, dy)", folded g, simplified]
  have w: "50 \<le> r_w (geometry a')" and h: "30 \<le> r_h (geometry a')"
    using geo(3,4) assms(5) by (simp_all add: rect_width_def rect_height_def)
  have sz: "note_size (m_note a') = toSize (r_w (geometry a'), r_h (geometry a'))"
    using st(3) assms(11) by simp
  have w': "50 \<le> fst (note_size (m_note a'))"
    using qRound_ge [of 50 "r_w (geometry a')"] w sz assms(12)
    by (simp add: toSize_def rect_width_def)
  have h': "30 \<le> snd (note_size (m_note a'))"
    using qRound_ge [of 30 "r_h (geometry a')"] h sz assms(13)
    by (simp add: toSize_def rect_height_def)
  have ps: "position (m_note a') = toPoint (r_x (geometry a'), r_y (geometry a'))"
    using st(2) assms(11) by simp
  have db: "m_dbManager a' = snd (updateNote (m_note a') (m_dbManager a))"
    using st(4) assms(11) by simp
  from w' h' sz ps db geo show ?thesis
    by (simp add: rect_left_def rect_top_def rect_width_def rect_height_def)
qed

theorem resize_gesture_minimum_size_witness:
  "m_dragResizeMode (applet_at (100, 100) (200, 150))
   \<and> getResizeHandle (applet_at (100, 100) (200, 150)) (ev_pos (press_at (5, 75) (105, 175))) = Left
   \<and> 50 \<le> fst (note_size (m_note (drag_gesture (press_at (5, 75) (105, 175))
        [move_by (5, 75) (105, 175) (1000, 0)] (release_by (5, 75) (105, 175) (1000, 0))
        (applet_at (100, 100) (200, 150)))))
   \<and> 30 \<le> snd (note_size (m_note (drag_gesture (press_at (5, 75) (105, 175))
        [move_by (5, 75) (105, 175) (1000, 0)] (release_by (5, 75) (105, 175) (1000, 0))
        (applet_at (100, 100) (200, 150)))))
   \<and> rect_width (geometry (drag_gesture (press_at (5, 75) (105, 175))
        [move_by (5, 75) (105, 175) (1000, 0)] (release_by (5, 75) (105, 175) (1000, 0))
        (applet_at (100, 100) (200, 150)))) = 50
   \<and> rect_left (geometry (drag_gesture (press_at (5, 75) (105, 175))
        [move_by (5, 75) (105, 175) (1000, 0)] (release_by (5, 75) (105, 175) (1000, 0))
        (applet_at (100, 100) (200, 150)))) = 1100"
proof -
  let ?a = "applet_at (100, 100) (200, 150)"
  let ?p = "press_at (5, 75) (105, 175)"
  let ?m = "[move_by (5, 75) (105, 175) (1000, 0)]"
  let ?r = "release_by (5, 75) (105, 175) (1000, 0)"
  have h1: "m_dragResizeMode ?a"
    by (simp add: applet_at_def handleDragResize_def new_applet_def)
  have h2: "ev_button ?p = LeftButton" by (simp add: press_at_def)
  have h3: "getResizeHandle ?a (ev_pos ?p) = Left"
    by (simp add: getResizeHandle_def applet_at_def handleDragResize_def new_applet_def
        press_at_def rect_defs Let_def)
  have h4: "Left \<noteq> None_handle"
    and h5: "Left = Body \<longrightarrow> 50 \<le> rect_width (geometry ?a) \<and> 30 \<le> rect_height (geometry ?a)"
    by simp_all
  have h6: "list_all ev_buttons_left ?m" and h6': "?m \<noteq> []" by (simp_all add: move_by_def)
  have h7: "ev_button ?r = LeftButton" by (simp add: release_by_def)
  have h8: "(1000::real) = of_int (fst (ev_screenPos (last ?m))) - of_int (fst (ev_screenPos ?p))"
    by (simp add: move_by_def press_at_def)
  have h9: "(0::real) = of_int (snd (ev_screenPos (last ?m))) - of_int (snd (ev_screenPos ?p))"
    by (simp add: move_by_def press_at_def)
  have g: "rect_left (geometry ?a) = 100" "rect_width (geometry ?a) = 200"
    by (simp_all add: applet_at_def handleDragResize_def new_applet_def rect_defs)
  have r1: "rect_width (geometry (drag_gesture ?p ?m ?r ?a)) \<le> 2147483647"
    and r2: "rect_height (geometry (drag_gesture ?p ?m ?r ?a)) \<le> 2147483647"
    by (simp_all add: gesture_defs rect_defs Let_def)
  note t = resize_gesture_minimum_size [OF h1 h2 h3 h4 h5 h6 h6' h7 h8 h9 refl r1 r2]
  from t have c1: "50 \<le> fst (note_size (m_note (drag_gesture ?p ?m ?r ?a)))"
    and c2: "30 \<le> snd (note_size (m_note (drag_gesture ?p ?m ?r ?a)))"
    by blast+
  from t g have c3: "rect_width (geometry (drag_gesture ?p ?m ?r ?a)) = 50"
    and c4: "rect_left (geometry (drag_gesture ?p ?m ?r ?a)) = 1100"
    by simp_all
  from h1 h3 c1 c2 c3 c4 show ?thesis by (intro conjI)
qed

text \<open>
  The claim C5 as stated fails in both parts. A gesture on the body of a rectangle of 60 by
  25 only translates it and commits the height 25. A gesture on the right handle of
  (100,100,200,150) that takes the pointer from screen x -2000000000 to 2000000000 gives
  the width 4000000200, which does not fit an \<^verbatim>\<open>int\<close>, and commits the width
  -2147483648. A gesture on the left handle of (100,100,200,150) dragged 1000 to the right
  commits the width 50 with the left edge at 1100 and the right edge at 1150: the dragged
  edge stays under the pointer and the opposite edge, captured at 300, is the one that
  is recomputed.
\<close>

theorem resize_clamp_counterexample:
  "getResizeHandle (applet_at (100, 100) (60, 25)) (30, 12) = Body
   \<and> note_size (m_note (drag_gesture (press_at (30, 12) (130, 112))
        [move_by (30, 12) (130, 112) (5, 5)] (release_by (30, 12) (130, 112) (5, 5))
        (applet_at (100, 100) (60, 25)))) = (60, 25)
   \<and> getResizeHandle (applet_at (100, 100) (200, 150)) (195, 75) = Right
   \<and> rect_width (geometry (drag_gesture (press_at (195, 75) (- 2000000000, 175))
        [move_by (195, 75) (- 2000000000, 175) (4000000000, 0)]
        (release_by (195, 75) (- 2000000000, 175) (4000000000, 0))
        (applet_at (100, 100) (200, 150)))) = 4000000200
   \<and> note_size (m_note (drag_gesture (press_at (195, 75) (- 2000000000, 175))
        [move_by (195, 75) (- 2000000000, 175) (4000000000, 0)]
        (release_by (195, 75) (- 2000000000, 175) (4000000000, 0))
        (applet_at (100, 100) (200, 150)))) = (- 2147483648, 150)
   \<and> getResizeHandle (applet_at (100, 100) (200, 150)) (5, 75) = Left
   \<and> rect_right (geometry (applet_at (100, 100) (200, 150))) = 300
   \<and> rect_left (geometry (drag_gesture (press_at (5, 75) (105, 175))
        [move_by (5, 75) (105, 175) (1000, 0)] (release_by (5, 75) (105, 175) (1000, 0))
        (applet_at (100, 100) (200, 150)))) = 1100
   \<and> rect_right (geometry (drag_gesture (press_at (5, 75) (105, 175))
        [move_by (5, 75) (105, 175) (1000, 0)] (release_by (5, 75) (105, 175) (1000, 0))
        (applet_at (100, 100) (200, 150)))) = 1150"
  by (simp add: gesture_defs rect_defs qRound_def Let_def)

text \<open>
  C6, as the code has it. On the top-left handle of (100,100,200,150) a delta of
  (-1000,-1000) moves the left and top edges to -900; the right edge stays at 300 and the
  bottom edge at 250, so the rectangle grows to 1200 by 1150 and nothing is clamped. That
  rectangle is committed to the note and written to its row.
\<close>

theorem topleft_gesture_grows:
  "getResizeHandle (applet_at (100, 100) (200, 150)) (5, 5) = TopLeft
   \<and> position (m_note (drag_gesture (press_at (5, 5) (105, 105))
        [move_by (5, 5) (105, 105) (- 1000, - 1000)] (release_by (5, 5) (105, 105) (- 1000, - 1000))
        (applet_at (100, 100) (200, 150)))) = (- 900, - 900)
   \<and> note_size (m_note (drag_gesture (press_at (5, 5) (105, 105))
        [move_by (5, 5) (105, 105) (- 1000, - 1000)] (release_by (5, 5) (105, 105) (- 1000, - 1000))
        (applet_at (100, 100) (200, 150)))) = (1200, 1150)
   \<and> rect_right (geometry (drag_gesture (press_at (5, 5) (105, 105))
        [move_by (5, 5) (105, 105) (- 1000, - 1000)] (release_by (5, 5) (105, 105) (- 1000, - 1000))
        (applet_at (100, 100) (200, 150)))) = 300
   \<and> rect_bottom (geometry (drag_gesture (press_at (5, 5) (105, 105))
        [move_by (5, 5) (105, 105) (- 1000, - 1000)] (release_by (5, 5) (105, 105) (- 1000, - 1000))
        (applet_at (100, 100) (200, 150)))) = 250
   \<and> map (\<lambda>r. (c_position_x r, c_position_y r, c_size_width r, c_size_height r))
        (notes_tbl (m_dbManager (drag_gesture (press_at (5, 5) (105, 105))
          [move_by (5, 5) (105, 105) (- 1000, - 1000)]
          (release_by (5, 5) (105, 105) (- 1000, - 1000))
          (applet_at (100, 100) (200, 150))))) = [(- 900, - 900, 1200, 1150)]"
  by (simp add: gesture_defs rect_defs store_defs Let_def)

text \<open>
  The claim C6 as stated fails: the rectangle committed by that gesture is not 50 wide and
  30 high.
\<close>

theorem topleft_gesture_counterexample:
  "note_size (m_note (drag_gesture (press_at (5, 5) (105, 105))
        [move_by (5, 5) (105, 105) (- 1000, - 1000)] (release_by (5, 5) (105, 105) (- 1000, - 1000))
        (applet_at (100, 100) (200, 150)))) \<noteq> (50, 30)"
  by (simp add: gesture_defs rect_defs qRound_def Let_def)

section \<open>Listing order and adoption\<close>

lemma ensureOpen_seq: "sqlite_sequence (snd (ensureOpen d)) = sqlite_sequence d"
  by (simp add: ensureOpen_def openDb_def initializeDatabase_def exec_def
      split: list.splits prod.splits)

lemma exec_notes_seq: "sqlite_sequence (snd (exec_notes d)) = sqlite_sequence d"
  by (simp add: exec_notes_def exec_def split: list.splits prod.splits)

text \<open>What the two steps that open every operation leave of the table.\<close>

lemma prelude_frame:
  assumes "ensureOpen d = (ok, d1)" and "exec_notes d1 = (ok2, d2)"
  shows "notes_tbl d1 = notes_tbl d" and "notes_tbl d2 = notes_tbl d"
    and "next_rowid d2 = next_rowid d"
proof -
  show n1: "notes_tbl d1 = notes_tbl d" using ensureOpen_notes [of d] assms(1) by simp
  show n2: "notes_tbl d2 = notes_tbl d" using exec_notes_notes [of d1] assms(2) n1 by simp
  have "sqlite_sequence d2 = sqlite_sequence d"
    using ensureOpen_seq [of d] exec_notes_seq [of d1] assms by simp
  with n2 show "next_rowid d2 = next_rowid d" by (simp add: next_rowid_def)
qed

lemma addNote_rows:
  "notes_tbl (snd (addNote n d)) = notes_tbl d
   \<or> notes_tbl (snd (addNote n d)) = notes_tbl d @ [bind_row (next_rowid d) n]"
proof -
  obtain ok d1 where e1: "ensureOpen d = (ok, d1)" by (cases "ensureOpen d")
  obtain ok2 d2 where e2: "exec_notes d1 = (ok2, d2)" by (cases "exec_notes d1")
  note fr = prelude_frame [OF e1 e2]
  show ?thesis using e1 e2 fr by (simp add: addNote_def Let_def)
qed

lemma updateNote_rows:
  "notes_tbl (snd (updateNote n d)) = notes_tbl d
   \<or> notes_tbl (snd (updateNote n d))
       = map (\<lambda>r. if c_id r = note_id n then bind_row (c_id r) n else r) (notes_tbl d)"
proof -
  obtain ok d1 where e1: "ensureOpen d = (ok, d1)" by (cases "ensureOpen d")
  obtain ok2 d2 where e2: "exec_notes d1 = (ok2, d2)" by (cases "exec_notes d1")
  note fr = prelude_frame [OF e1 e2]
  show ?thesis using e1 e2 fr by (simp add: updateNote_def)
qed

lemma setNoteStatus_rows:
  "notes_tbl (snd (setNoteStatus i s d)) = notes_tbl d
   \<or> notes_tbl (snd (setNoteStatus i s d))
       = map (\<lambda>r. if c_id r = i then r\<lparr>c_status := s\<rparr> else r) (notes_tbl d)"
proof -
  obtain ok d1 where e1: "ensureOpen d = (ok, d1)" by (cases "ensureOpen d")
  obtain ok2 d2 where e2: "exec_notes d1 = (ok2, d2)" by (cases "exec_notes d1")
  note fr = prelude_frame [OF e1 e2]
  show ?thesis using e1 e2 fr by (simp add: setNoteStatus_def)
qed

lemma deleteNoteById_rows:
  "notes_tbl (snd (deleteNoteById i d)) = notes_tbl d
   \<or> notes_tbl (snd (deleteNoteById i d)) = filter (\<lambda>r. c_id r \<noteq> i) (notes_tbl d)"
proof -
  obtain ok d1 where e1: "ensureOpen d = (ok, d1)" by (cases "ensureOpen d")
  obtain ok2 d2 where e2: "exec_notes d1 = (ok2, d2)" by (cases "exec_notes d1")
  note fr = prelude_frame [OF e1 e2]
  show ?thesis using e1 e2 fr by (simp add: deleteNoteById_def)
qed

lemma getAllNotes_rows: "notes_tbl (snd (getAllNotes cv d)) = notes_tbl d"
proof -
  obtain ok d1 where e1: "ensureOpen d = (ok, d1)" by (cases "ensureOpen d")
  obtain ok2 d2 where e2: "exec_notes d1 = (ok2, d2)" by (cases "exec_notes d1")
  obtain ok3 d3 where e3: "exec_notes d2 = (ok3, d3)" by (cases "exec_notes d2")
  have "notes_tbl d3 = notes_tbl d"
    using prelude_frame(2) [OF e1 e2] exec_notes_notes [of d2] e3 by simp
  then show ?thesis using e1 e2 e3 prelude_frame(1) [OF e1 e2] prelude_frame(2) [OF e1 e2]
    by (simp add: getAllNotes_def)
qed

lemma getAllNotes_listing:
  "fst (getAllNotes cv d) = [] \<or> fst (getAllNotes cv d) = map (read_row cv) (notes_tbl d)"
proof -
  obtain ok d1 where e1: "ensureOpen d = (ok, d1)" by (cases "ensureOpen d")
  obtain ok2 d2 where e2: "exec_notes d1 = (ok2, d2)" by (cases "exec_notes d1")
  obtain ok3 d3 where e3: "exec_notes d2 = (ok3, d3)" by (cases "exec_notes d2")
  have "notes_tbl d3 = notes_tbl d"
    using prelude_frame(2) [OF e1 e2] exec_notes_notes [of d2] e3 by simp
  then show ?thesis using e1 e2 e3 by (simp add: getAllNotes_def)
qed

lemma map_c_id_update:
  "map c_id (map (\<lambda>r. if c_id r = i then bind_row (c_id r) n else r) rs) = map c_id rs"
  by (induction rs) (simp_all add: bind_row_def)

lemma map_c_id_status:
  "map c_id (map (\<lambda>r. if c_id r = i then r\<lparr>c_status := s\<rparr> else r) rs) = map c_id rs"
  by (induction rs) simp_all

lemma ids_ascending_rows:
  "ids_ascending d \<Longrightarrow> map c_id (notes_tbl d') = map c_id (notes_tbl d) \<Longrightarrow> ids_ascending d'"
proof -
  assume a: "ids_ascending d" and m: "map c_id (notes_tbl d') = map c_id (notes_tbl d)"
  have "list_all (\<lambda>r. 0 < c_id r) rs = list_all (\<lambda>i. 0 < i) (map c_id rs)" for rs :: "row list"
    by (induction rs) simp_all
  with a m show ?thesis by (simp add: ids_ascending_def)
qed

lemma next_rowid_positive: "0 < next_rowid d"
  using fold_max_ge [of 0 "map c_id (notes_tbl d)"] by (simp add: next_rowid_def)

lemma ids_ascending_addNote: "ids_ascending d \<Longrightarrow> ids_ascending (snd (addNote n d))"
proof -
  assume a: "ids_ascending d"
  from addNote_rows [of n d] show ?thesis
  proof
    assume "notes_tbl (snd (addNote n d)) = notes_tbl d"
    with a show ?thesis by (simp add: ids_ascending_rows)
  next
    assume r: "notes_tbl (snd (addNote n d)) = notes_tbl d @ [bind_row (next_rowid d) n]"
    have "\<forall>x \<in> set (notes_tbl d). c_id x < next_rowid d"
      using next_rowid_fresh by blast
    with a r next_rowid_positive [of d] show ?thesis
      by (simp add: ids_ascending_def sorted_wrt_append bind_row_def)
  qed
qed

lemma ids_ascending_deleteNoteById: "ids_ascending d \<Longrightarrow> ids_ascending (snd (deleteNoteById i d))"
proof -
  assume a: "ids_ascending d"
  from deleteNoteById_rows [of i d] show ?thesis
  proof
    assume "notes_tbl (snd (deleteNoteById i d)) = notes_tbl d"
    with a show ?thesis by (simp add: ids_ascending_rows)
  next
    assume r: "notes_tbl (snd (deleteNoteById i d)) = filter (\<lambda>r. c_id r \<noteq> i) (notes_tbl d)"
    have "sorted_wrt (\<lambda>x y. c_id x < c_id y) (filter (\<lambda>r. c_id r \<noteq> i) (notes_tbl d))"
      using a by (simp add: ids_ascending_def sorted_wrt_map sorted_wrt_filter)
    with a r show ?thesis
      by (simp add: ids_ascending_def sorted_wrt_map list_all_iff)
  qed
qed

lemma ids_ascending_apply_op: "ids_ascending d \<Longrightarrow> ids_ascending (apply_op cv op d)"
proof (cases op)
  case Op_openDb
  assume "ids_ascending d"
  with Op_openDb show ?thesis by (simp add: ids_ascending_rows openDb_notes)
next
  case (Op_addNote n)
  assume "ids_ascending d"
  with Op_addNote show ?thesis by (simp add: ids_ascending_addNote)
next
  case (Op_updateNote n)
  assume a: "ids_ascending d"
  have "map c_id (notes_tbl (snd (updateNote n d))) = map c_id (notes_tbl d)"
    using updateNote_rows [of n d] map_c_id_update [of "note_id n" n "notes_tbl d"]
    by (elim disjE) simp_all
  with a Op_updateNote show ?thesis by (simp add: ids_ascending_rows)
next
  case (Op_getNoteById i)
  assume "ids_ascending d"
  with Op_getNoteById show ?thesis by (simp add: ids_ascending_rows getNoteById_notes)
next
  case Op_getAllNotes
  assume "ids_ascending d"
  with Op_getAllNotes show ?thesis by (simp add: ids_ascending_rows getAllNotes_rows)
next
  case (Op_deleteNoteById i)
  assume "ids_ascending d"
  with Op_deleteNoteById show ?thesis by (simp add: ids_ascending_deleteNoteById)
next
  case (Op_setNoteStatus i s)
  assume a: "ids_ascending d"
  have "map c_id (notes_tbl (snd (setNoteStatus i s d))) = map c_id (notes_tbl d)"
    using setNoteStatus_rows [of i s d] map_c_id_status [of i s "notes_tbl d"]
    by (elim disjE) simp_all
  with a Op_setNoteStatus show ?thesis by (simp add: ids_ascending_rows)
next
  case (Op_restart c fs)
  assume "ids_ascending d"
  with Op_restart show ?thesis by (simp add: ids_ascending_def)
qed

lemma ids_ascending_run_ops: "ids_ascending d \<Longrightarrow> ids_ascending (run_ops cv ops d)"
  unfolding run_ops_def
  by (induction ops arbitrary: d) (simp_all add: ids_ascending_apply_op)

lemma ids_ascending_fresh: "ids_ascending (fresh_db c fs)"
  by (simp add: ids_ascending_def fresh_db_def)

lemma find_first_least:
  assumes "sorted_wrt (\<lambda>x y. f x < f y) xs" and "find P xs = Some x" and "y \<in> set xs" and "P y"
  shows "(f x :: int) \<le> f y"
  using assms by (induction xs) (auto split: if_splits)

lemma find_Some_member: "find P xs = Some x \<Longrightarrow> x \<in> set xs \<and> P x"
  by (induction xs) (auto split: if_splits)

lemma find_map_read_row:
  "find (\<lambda>n. status n = s) (map (read_row cv) rs)
     = map_option (read_row cv) (find (\<lambda>r. c_status r = s) rs)"
  by (induction rs) (simp_all add: read_row_def)

lemma operational_getAllNotes:
  "isOpen d \<Longrightarrow> hasTable d \<Longrightarrow> faults d = [] \<Longrightarrow>
   getAllNotes cv d = (map (read_row cv) (notes_tbl d), d)"
  by (simp add: getAllNotes_def operational_ensureOpen operational_exec_notes)

lemma operational_updateNote:
  "isOpen d \<Longrightarrow> hasTable d \<Longrightarrow> faults d = [] \<Longrightarrow> note_id n \<noteq> - 1 \<Longrightarrow>
   updateNote n d
     = (True, d\<lparr>notes_tbl := map (\<lambda>r. if c_id r = note_id n then bind_row (c_id r) n else r)
                                (notes_tbl d)\<rparr>)"
  by (simp add: updateNote_def operational_ensureOpen operational_exec_notes)

lemma operational_addNote:
  "isOpen d \<Longrightarrow> hasTable d \<Longrightarrow> faults d = [] \<Longrightarrow>
   addNote n d
     = (next_rowid d, d\<lparr>notes_tbl := notes_tbl d @ [bind_row (next_rowid d) n],
                        sqlite_sequence := next_rowid d\<rparr>)"
  by (simp add: addNote_def operational_ensureOpen operational_exec_notes Let_def)

lemma persist_id_frame:
  "m_note (persist_id a) = m_note a" "m_dbManager (persist_id a) = m_dbManager a"
  by (simp_all add: persist_id_def writeConfig_def)

text \<open>An applet that finds a pending row on a store that executes every statement adopts it.\<close>

lemma initializeNewNote_adopts:
  assumes "isOpen (m_dbManager a)" and "hasTable (m_dbManager a)" and "faults (m_dbManager a) = []"
    and "find (\<lambda>r. c_status r = ''pending_placement'') (notes_tbl (m_dbManager a)) = Some r"
    and "c_id r \<noteq> - 1"
  shows "m_note (initializeNewNote cv a) = (read_row cv r)\<lparr>status := ''shown''\<rparr>"
    and "m_dbManager (initializeNewNote cv a)
           = (m_dbManager a)\<lparr>notes_tbl :=
                map (\<lambda>q. if c_id q = c_id r
                          then bind_row (c_id q) ((read_row cv r)\<lparr>status := ''shown''\<rparr>) else q)
                    (notes_tbl (m_dbManager a))\<rparr>"
proof -
  let ?d = "m_dbManager a"
  let ?n = "(read_row cv r)\<lparr>status := ''shown''\<rparr>"
  have nid: "note_id ?n = c_id r" by (simp add: read_row_def)
  have f: "find (\<lambda>n. status n = ''pending_placement'') (map (read_row cv) (notes_tbl ?d))
             = Some (read_row cv r)"
    using assms(4) by (simp add: find_map_read_row)
  have u: "updateNote ?n ?d
     = (True, ?d\<lparr>notes_tbl := map (\<lambda>q. if c_id q = c_id r then bind_row (c_id q) ?n else q)
                                (notes_tbl ?d)\<rparr>)"
    using operational_updateNote [OF assms(1-3), of ?n] assms(5) nid by simp
  have "initializeNewNote cv a = initializeNewNote_from (map (read_row cv) (notes_tbl ?d)) a"
    using operational_getAllNotes [OF assms(1-3), of cv] by (simp add: initializeNewNote_def)
  then have e: "initializeNewNote cv a
      = persist_id (setPreferredGeometry (QRect_to_QRectF (position ?n) (note_size ?n))
          (a\<lparr>m_note := ?n, m_dbManager := ?d\<lparr>notes_tbl :=
                map (\<lambda>q. if c_id q = c_id r then bind_row (c_id q) ?n else q) (notes_tbl ?d)\<rparr>\<rparr>))"
    using f u by (simp add: initializeNewNote_from_def Let_def)
  show "m_note (initializeNewNote cv a) = ?n"
    unfolding e by (simp add: persist_id_frame setPreferredGeometry_def)
  show "m_dbManager (initializeNewNote cv a)
           = ?d\<lparr>notes_tbl := map (\<lambda>q. if c_id q = c_id r then bind_row (c_id q) ?n else q)
                    (notes_tbl ?d)\<rparr>"
    unfolding e by (simp add: persist_id_frame setPreferredGeometry_def)
qed

text \<open>
  C2. After any history of store operations from a fresh file, \<^verbatim>\<open>getAllNotes\<close>
  returns the records in strictly ascending order of id. Consequently an applet that resolves
  its identity on a store that executes every statement adopts, when some record is
  pending, a pending record whose id is not larger than that of any pending record.
\<close>

theorem getAllNotes_ascending_adopts_least:
  assumes "d = run_ops cv ops (fresh_db c fs)" and "m_dbManager a = d"
  shows "sorted_wrt (<) (map note_id (fst (getAllNotes cv d)))
       \<and> (isOpen d \<and> hasTable d \<and> faults d = [] \<longrightarrow>
            (\<forall>p \<in> set (notes_tbl d). c_status p = ''pending_placement'' \<longrightarrow>
               note_id (m_note (initializeNewNote cv a)) \<le> c_id p
               \<and> (\<exists>q \<in> set (notes_tbl d). c_status q = ''pending_placement''
                      \<and> c_id q = note_id (m_note (initializeNewNote cv a)))))"
proof -
  have inv: "ids_ascending d"
    using assms(1) ids_ascending_run_ops [OF ids_ascending_fresh] by simp
  have ids: "map note_id (map (read_row cv) (notes_tbl d)) = map c_id (notes_tbl d)"
    by (simp add: read_row_def comp_def)
  have sorted: "sorted_wrt (<) (map note_id (fst (getAllNotes cv d)))"
  proof -
    from getAllNotes_listing [of cv d] show ?thesis
    proof
      assume "fst (getAllNotes cv d) = []"
      then show ?thesis by simp
    next
      assume "fst (getAllNotes cv d) = map (read_row cv) (notes_tbl d)"
      then have "map note_id (fst (getAllNotes cv d)) = map c_id (notes_tbl d)"
        using ids by (simp only:)
      with inv show ?thesis by (simp only: ids_ascending_def)
    qed
  qed
  have adopt: "note_id (m_note (initializeNewNote cv a)) \<le> c_id p
               \<and> (\<exists>q \<in> set (notes_tbl d). c_status q = ''pending_placement''
                      \<and> c_id q = note_id (m_note (initializeNewNote cv a)))"
    if op: "isOpen d" "hasTable d" "faults d = []"
      and p: "p \<in> set (notes_tbl d)" "c_status p = ''pending_placement''" for p
  proof -
    obtain r where r: "find (\<lambda>r. c_status r = ''pending_placement'') (notes_tbl d) = Some r"
      using p by (cases "find (\<lambda>r. c_status r = ''pending_placement'') (notes_tbl d)")
        (auto simp: find_None_iff)
    have rm: "r \<in> set (notes_tbl d)" and rp: "c_status r = ''pending_placement''"
      using find_Some_member [OF r] by simp_all
    have pos: "0 < c_id r" using inv rm by (simp add: ids_ascending_def list_all_iff)
    have "m_note (initializeNewNote cv a) = (read_row cv r)\<lparr>status := ''shown''\<rparr>"
      using initializeNewNote_adopts(1) [of a r cv] op r pos assms(2) by simp
    then have nid: "note_id (m_note (initializeNewNote cv a)) = c_id r"
      by (simp add: read_row_def)
    have "c_id r \<le> c_id p"
      using find_first_least [of c_id "notes_tbl d" _ r p] inv r p
      by (simp add: ids_ascending_def sorted_wrt_map)
    with nid rm rp show ?thesis by auto
  qed
  from sorted adopt show ?thesis by blast
qed

lemma run_ops_379:
  "db_with [pending_row 3, pending_row 7, pending_row 9] [] = run_ops cv0 ops_379 (fresh_db True [])"
  by (simp add: run_ops_def ops_379_def addNote_def deleteNoteById_def
      ensureOpen_def openDb_def initializeDatabase_def exec_def exec_notes_def next_rowid_def
      db_with_def fresh_db_def pending_row_def bind_row_def Let_def)

theorem getAllNotes_ascending_adopts_least_witness:
  "db_with [pending_row 3, pending_row 7, pending_row 9] [] = run_ops cv0 ops_379 (fresh_db True [])
   \<and> map (\<lambda>r. (c_id r, c_status r)) (notes_tbl (db_with [pending_row 3, pending_row 7, pending_row 9] []))
       = [(3, ''pending_placement''), (7, ''pending_placement''), (9, ''pending_placement'')]
   \<and> sorted_wrt (<) (map note_id
        (fst (getAllNotes cv0 (db_with [pending_row 3, pending_row 7, pending_row 9] []))))
   \<and> note_id (m_note (initializeNewNote cv0
        (new_applet (db_with [pending_row 3, pending_row 7, pending_row 9] [])))) = 3"
proof -
  let ?d = "db_with [pending_row 3, pending_row 7, pending_row 9] []"
  let ?k = "note_id (m_note (initializeNewNote cv0 (new_applet ?d)))"
  have h2: "m_dbManager (new_applet ?d) = ?d" by (simp add: new_applet_def)
  note t = getAllNotes_ascending_adopts_least [OF run_ops_379 h2]
  have rows: "map (\<lambda>r. (c_id r, c_status r)) (notes_tbl ?d)
       = [(3, ''pending_placement''), (7, ''pending_placement''), (9, ''pending_placement'')]"
    by (simp add: db_with_def pending_row_def bind_row_def)
  have op: "isOpen ?d \<and> hasTable ?d \<and> faults ?d = []" by (simp add: db_with_def)
  have p3: "pending_row 3 \<in> set (notes_tbl ?d)" "c_status (pending_row 3) = ''pending_placement''"
    "c_id (pending_row 3) = 3"
    by (simp_all add: db_with_def pending_row_def bind_row_def)
  from t op p3 have le: "?k \<le> 3"
    and ex: "\<exists>q \<in> set (notes_tbl ?d). c_status q = ''pending_placement'' \<and> c_id q = ?k"
    by fastforce+
  from ex have "?k = 3 \<or> ?k = 7 \<or> ?k = 9"
    by (auto simp: db_with_def pending_row_def bind_row_def)
  with le have k: "?k = 3" by arith
  from t have s: "sorted_wrt (<) (map note_id (fst (getAllNotes cv0 ?d)))" by blast
  from run_ops_379 rows s k show ?thesis by (intro conjI)
qed

section \<open>Claiming a pending record\<close>

lemma initializeNewNote_creates:
  assumes "isOpen (m_dbManager a)" and "hasTable (m_dbManager a)" and "faults (m_dbManager a) = []"
    and "find (\<lambda>r. c_status r = ''pending_placement'') (notes_tbl (m_dbManager a)) = None"
  shows "m_note (initializeNewNote cv a) = Note_default\<lparr>note_id := next_rowid (m_dbManager a)\<rparr>"
    and "m_dbManager (initializeNewNote cv a)
           = (m_dbManager a)\<lparr>notes_tbl := notes_tbl (m_dbManager a)
                                 @ [bind_row (next_rowid (m_dbManager a)) Note_default],
                             sqlite_sequence := next_rowid (m_dbManager a)\<rparr>"
proof -
  let ?d = "m_dbManager a"
  have f: "find (\<lambda>n. status n = ''pending_placement'') (map (read_row cv) (notes_tbl ?d)) = None"
    using assms(4) by (simp add: find_map_read_row)
  have ne: "next_rowid ?d \<noteq> - 1" using next_rowid_positive [of ?d] by simp
  have "initializeNewNote cv a = initializeNewNote_from (map (read_row cv) (notes_tbl ?d)) a"
    using operational_getAllNotes [OF assms(1-3), of cv] by (simp add: initializeNewNote_def)
  then have e: "initializeNewNote cv a
      = persist_id (a\<lparr>m_note := Note_default\<lparr>note_id := next_rowid ?d\<rparr>,
           m_dbManager := ?d\<lparr>notes_tbl := notes_tbl ?d @ [bind_row (next_rowid ?d) Note_default],
                              sqlite_sequence := next_rowid ?d\<rparr>\<rparr>)"
    using f operational_addNote [OF assms(1-3), of Note_default] ne
    by (simp add: initializeNewNote_from_def)
  show "m_note (initializeNewNote cv a) = Note_default\<lparr>note_id := next_rowid ?d\<rparr>"
    unfolding e by (simp add: persist_id_frame)
  show "m_dbManager (initializeNewNote cv a)
           = ?d\<lparr>notes_tbl := notes_tbl ?d @ [bind_row (next_rowid ?d) Note_default],
                 sqlite_sequence := next_rowid ?d\<rparr>"
    unfolding e by (simp add: persist_id_frame)
qed

lemma bind_row_sel: "c_id (bind_row i n) = i" "c_status (bind_row i n) = status n"
  by (simp_all add: bind_row_def)

lemma updated_rows_pos:
  "list_all (\<lambda>q. 0 < c_id q) rs \<Longrightarrow> list_all (\<lambda>q. 0 < c_id q) (map (\<lambda>q. if c_id q = j then bind_row (c_id q) n else q) rs)"
  by (induction rs) (auto simp: bind_row_sel)

lemma updated_rows_ex:
  "list_ex (\<lambda>q. c_id q = i) rs \<Longrightarrow> list_ex (\<lambda>q. c_id q = i) (map (\<lambda>q. if c_id q = j then bind_row (c_id q) n else q) rs)"
  by (induction rs) (auto simp: bind_row_sel)

lemma updated_rows_other:
  "i \<noteq> j \<Longrightarrow> list_all (\<lambda>q. c_id q = i \<longrightarrow> c_status q = s) rs
     \<Longrightarrow> list_all (\<lambda>q. c_id q = i \<longrightarrow> c_status q = s) (map (\<lambda>q. if c_id q = j then bind_row (c_id q) n else q) rs)"
  by (induction rs) (auto simp: bind_row_sel)

lemma updated_rows_status:
  "status n = s \<Longrightarrow> list_all (\<lambda>q. c_id q = j \<longrightarrow> c_status q = s) (map (\<lambda>q. if c_id q = j then bind_row (c_id q) n else q) rs)"
  by (induction rs) (auto simp: bind_row_sel)

lemma adopted_shown_step:
  assumes "adopted_shown i (m_dbManager a)"
  shows "adopted_shown i (m_dbManager (initializeNewNote cv a))
       \<and> note_id (m_note (initializeNewNote cv a)) \<noteq> i"
proof -
  let ?d = "m_dbManager a"
  from assms have op: "isOpen ?d" "hasTable ?d" "faults ?d = []"
    and pos: "\<forall>r \<in> set (notes_tbl ?d). 0 < c_id r"
    and shown: "\<forall>q \<in> set (notes_tbl ?d). c_id q = i \<longrightarrow> c_status q = ''shown''"
    and ex: "\<exists>q \<in> set (notes_tbl ?d). c_id q = i"
    by (simp_all add: adopted_shown_def list_all_iff list_ex_iff)
  show ?thesis
  proof (cases "find (\<lambda>r. c_status r = ''pending_placement'') (notes_tbl ?d)")
    case None
    note r = initializeNewNote_creates [OF op None, of cv]
    from ex obtain q where q: "q \<in> set (notes_tbl ?d)" "c_id q = i" by blast
    have lt: "i < next_rowid ?d" using next_rowid_fresh [OF q(1)] q(2) by simp
    have "note_id (m_note (initializeNewNote cv a)) \<noteq> i" using r(1) lt by simp
    moreover have "adopted_shown i (m_dbManager (initializeNewNote cv a))"
      unfolding r(2) using op pos shown ex lt next_rowid_positive [of ?d]
      by (simp add: adopted_shown_def list_all_iff list_ex_iff bind_row_def)
    ultimately show ?thesis by simp
  next
    case (Some p)
    have pm: "p \<in> set (notes_tbl ?d)" and pp: "c_status p = ''pending_placement''"
      using find_Some_member [OF Some] by simp_all
    have pi: "c_id p \<noteq> i" using shown pm pp by auto
    have pv: "c_id p \<noteq> - 1" using pos pm by force
    note r = initializeNewNote_adopts [OF op Some pv, of cv]
    have "note_id (m_note (initializeNewNote cv a)) \<noteq> i"
      using r(1) pi by (simp add: read_row_def)
    moreover have "adopted_shown i (m_dbManager (initializeNewNote cv a))"
      unfolding r(2) using assms pi
      by (simp add: adopted_shown_def updated_rows_pos updated_rows_ex updated_rows_other)
    ultimately show ?thesis by simp
  qed
qed

lemma run_instances_after:
  "adopted_shown i d \<Longrightarrow>
   i \<notin> set (fst (run_instances cv k a0 d)) \<and> length (fst (run_instances cv k a0 d)) = k
   \<and> adopted_shown i (snd (run_instances cv k a0 d))"
proof (induction k arbitrary: d)
  case 0
  then show ?case by simp
next
  case (Suc k)
  let ?a = "initializeNewNote cv (a0\<lparr>m_dbManager := d\<rparr>)"
  have st: "adopted_shown i (m_dbManager ?a) \<and> note_id (m_note ?a) \<noteq> i"
    using adopted_shown_step [of i "a0\<lparr>m_dbManager := d\<rparr>" cv] Suc.prems by simp
  from Suc.IH [of "m_dbManager ?a"] st show ?case
    by (simp add: Let_def case_prod_beta)
qed

text \<open>
  C1, as the code has it. The claim is a listing read followed by an unconditional
  \<^verbatim>\<open>updateNote\<close> keyed by the id. When \<open>N\<close> callers run it one after the other on a
  store that executes every statement, the first pending record of the listing is adopted by
  the first caller and by no other, and it ends with status shown.
\<close>

theorem sequential_claims_adopt_once:
  assumes "isOpen d" and "hasTable d" and "faults d = []"
    and "list_all (\<lambda>r. 0 < c_id r) (notes_tbl d)"
    and "find (\<lambda>r. c_status r = ''pending_placement'') (notes_tbl d) = Some r"
    and "0 < N"
  shows "length (fst (run_instances cv N a0 d)) = N
       \<and> hd (fst (run_instances cv N a0 d)) = c_id r
       \<and> count_list (fst (run_instances cv N a0 d)) (c_id r) = 1
       \<and> list_all (\<lambda>q. c_id q = c_id r \<longrightarrow> c_status q = ''shown'')
            (notes_tbl (snd (run_instances cv N a0 d)))
       \<and> list_ex (\<lambda>q. c_id q = c_id r) (notes_tbl (snd (run_instances cv N a0 d)))"
proof -
  obtain k where N: "N = Suc k" using assms(6) by (cases N) simp_all
  let ?fresh = "a0\<lparr>m_dbManager := d\<rparr>"
  let ?a = "initializeNewNote cv ?fresh"
  have rm: "r \<in> set (notes_tbl d)" using find_Some_member [OF assms(5)] by simp
  have pos: "\<forall>q \<in> set (notes_tbl d). 0 < c_id q" using assms(4) by (simp add: list_all_iff)
  have rv: "c_id r \<noteq> - 1" using pos rm by force
  have op: "isOpen (m_dbManager ?fresh)" "hasTable (m_dbManager ?fresh)" "faults (m_dbManager ?fresh) = []"
    using assms(1-3) by simp_all
  have fnd: "find (\<lambda>r. c_status r = ''pending_placement'') (notes_tbl (m_dbManager ?fresh)) = Some r"
    using assms(5) by simp
  note ad = initializeNewNote_adopts [OF op fnd rv, of cv]
  have first: "note_id (m_note ?a) = c_id r" using ad(1) by (simp add: read_row_def)
  have rex: "list_ex (\<lambda>q. c_id q = c_id r) (notes_tbl d)"
    using rm by (auto simp: list_ex_iff)
  have settled: "adopted_shown (c_id r) (m_dbManager ?a)"
    unfolding ad(2) using assms(1-4) rex
    by (simp add: adopted_shown_def updated_rows_pos updated_rows_ex updated_rows_status)
  note rest = run_instances_after [OF settled, of cv k a0]
  have ids: "fst (run_instances cv N a0 d)
               = c_id r # fst (run_instances cv k a0 (m_dbManager ?a))"
    and fin: "snd (run_instances cv N a0 d) = snd (run_instances cv k a0 (m_dbManager ?a))"
    using N first by (simp_all add: Let_def case_prod_beta)
  have cnt: "count_list (fst (run_instances cv k a0 (m_dbManager ?a))) (c_id r) = 0"
    using rest by (simp add: count_list_0_iff)
  from rest have fs: "list_all (\<lambda>q. c_id q = c_id r \<longrightarrow> c_status q = ''shown'')
            (notes_tbl (snd (run_instances cv k a0 (m_dbManager ?a))))"
    and fe: "list_ex (\<lambda>q. c_id q = c_id r) (notes_tbl (snd (run_instances cv k a0 (m_dbManager ?a))))"
    by (simp_all add: adopted_shown_def)
  from ids fin cnt fs fe rest N show ?thesis by simp
qed

theorem sequential_claims_adopt_once_witness:
  "isOpen (db_with [pending_row 5] []) \<and> hasTable (db_with [pending_row 5] [])
   \<and> faults (db_with [pending_row 5] []) = []
   \<and> list_all (\<lambda>r. 0 < c_id r) (notes_tbl (db_with [pending_row 5] []))
   \<and> find (\<lambda>r. c_status r = ''pending_placement'') (notes_tbl (db_with [pending_row 5] []))
       = Some (pending_row 5)
   \<and> (0::nat) < 3
   \<and> length (fst (run_instances cv0 3 (new_applet (db_with [pending_row 5] []))
         (db_with [pending_row 5] []))) = 3
   \<and> hd (fst (run_instances cv0 3 (new_applet (db_with [pending_row 5] []))
         (db_with [pending_row 5] []))) = 5
   \<and> count_list (fst (run_instances cv0 3 (new_applet (db_with [pending_row 5] []))
         (db_with [pending_row 5] []))) 5 = 1"
proof -
  let ?d = "db_with [pending_row 5] []"
  have h1: "isOpen ?d" and h2: "hasTable ?d" and h3: "faults ?d = []"
    by (simp_all add: db_with_def)
  have h4: "list_all (\<lambda>r. 0 < c_id r) (notes_tbl ?d)"
    by (simp add: db_with_def pending_row_def bind_row_def)
  have h5: "find (\<lambda>r. c_status r = ''pending_placement'') (notes_tbl ?d) = Some (pending_row 5)"
    by (simp add: db_with_def pending_row_def bind_row_def)
  have h6: "(0::nat) < 3" by simp
  have i5: "c_id (pending_row 5) = 5" by (simp add: pending_row_def bind_row_def)
  note t = sequential_claims_adopt_once [OF h1 h2 h3 h4 h5 h6, of cv0 "new_applet ?d"]
  from t have c1: "length (fst (run_instances cv0 3 (new_applet ?d) ?d)) = 3" by blast
  from t i5 have c2: "hd (fst (run_instances cv0 3 (new_applet ?d) ?d)) = 5" by simp
  from t i5 have c3: "count_list (fst (run_instances cv0 3 (new_applet ?d) ?d)) 5 = 1" by simp
  from h1 h2 h3 h4 h5 h6 c1 c2 c3 show ?thesis by (intro conjI)
qed

text \<open>
  The claim C1 as stated fails. Two applets read the listing while record 5 is pending and
  then write in turn: each \<^verbatim>\<open>updateNote\<close> reports success, both applets end with
  id 5 and both persist it. The write is not guarded by the status: \<^verbatim>\<open>updateNote\<close> of
  a record that is already shown reports success as well.
\<close>

theorem interleaved_claims_counterexample:
  "note_id (m_note (fst (two_instances_interleaved cv0 (new_applet (db_with [pending_row 5] []))
      (db_with [pending_row 5] [])))) = 5
   \<and> note_id (m_note (snd (two_instances_interleaved cv0 (new_applet (db_with [pending_row 5] []))
      (db_with [pending_row 5] [])))) = 5
   \<and> config_noteId (fst (two_instances_interleaved cv0 (new_applet (db_with [pending_row 5] []))
      (db_with [pending_row 5] []))) = 5
   \<and> config_noteId (snd (two_instances_interleaved cv0 (new_applet (db_with [pending_row 5] []))
      (db_with [pending_row 5] []))) = 5
   \<and> map (\<lambda>r. (c_id r, c_status r)) (notes_tbl (m_dbManager (snd (two_instances_interleaved cv0
      (new_applet (db_with [pending_row 5] [])) (db_with [pending_row 5] []))))) = [(5, ''shown'')]
   \<and> fst (updateNote (Note_default\<lparr>note_id := 5\<rparr>) (db_with [bind_row 5 Note_default] [])) = True"
  by (simp add: two_instances_interleaved_def initializeNewNote_from_def getAllNotes_def
      updateNote_def addNote_def persist_id_def writeConfig_def setPreferredGeometry_def
      QRect_to_QRectF_def new_applet_def isValid_def store_defs Let_def)

section \<open>A failed update of the pending record\<close>

lemma faulted_getAllNotes:
  "isOpen d \<Longrightarrow> hasTable d \<Longrightarrow> faults d = f0 # False # fs \<Longrightarrow>
   getAllNotes cv d = (map (read_row cv) (notes_tbl d), d\<lparr>faults := fs\<rparr>)"
  by (simp add: getAllNotes_def operational_ensureOpen exec_notes_def exec_def)

lemma faulted_updateNote:
  "isOpen d \<Longrightarrow> faults d = True # fs \<Longrightarrow> note_id n \<noteq> - 1 \<Longrightarrow>
   updateNote n d = (False, d\<lparr>faults := fs\<rparr>)"
  by (simp add: updateNote_def operational_ensureOpen exec_notes_def exec_def)

lemma next_addNote:
  "isOpen d \<Longrightarrow> hasTable d \<Longrightarrow>
   addNote n d
     = (if faults d = [] \<or> \<not> hd (faults d)
        then (next_rowid d, d\<lparr>notes_tbl := notes_tbl d @ [bind_row (next_rowid d) n],
                               sqlite_sequence := next_rowid d, faults := tl (faults d)\<rparr>)
        else (- 1, d\<lparr>faults := tl (faults d)\<rparr>))"
  by (cases "faults d")
    (simp_all add: addNote_def operational_ensureOpen exec_notes_def exec_def Let_def
      next_rowid_def)

text \<open>
  C3, as the code has it. Only the first pending record of the listing is tried. When its
  \<^verbatim>\<open>updateNote\<close> fails, the applet resets to a default note and calls \<^verbatim>\<open>addNote\<close>
  at once: it ends with the brand-new id (or with no id, when that statement fails too),
  never with the id of a stored record, and every stored row, pending or not, is left as
  it was.
\<close>

theorem failed_update_creates_new:
  assumes "isOpen d" and "hasTable d" and "faults d = f0 # False # True # fs"
    and "list_all (\<lambda>r. 0 < c_id r) (notes_tbl d)"
    and "find (\<lambda>r. c_status r = ''pending_placement'') (notes_tbl d) = Some r"
    and "m_dbManager a = d"
    and "created = (fs = [] \<or> \<not> hd fs)"
  shows "m_note (initializeNewNote cv a)
           = (if created then Note_default\<lparr>note_id := next_rowid d\<rparr> else Note_default)
       \<and> notes_tbl (m_dbManager (initializeNewNote cv a))
           = (if created then notes_tbl d @ [bind_row (next_rowid d) Note_default] else notes_tbl d)
       \<and> list_all (\<lambda>p. c_id p \<noteq> note_id (m_note (initializeNewNote cv a))) (notes_tbl d)"
proof -
  let ?n = "(read_row cv r)\<lparr>status := ''shown''\<rparr>"
  let ?d1 = "d\<lparr>faults := True # fs\<rparr>"
  let ?d2 = "d\<lparr>faults := fs\<rparr>"
  have pos: "\<forall>q \<in> set (notes_tbl d). 0 < c_id q" using assms(4) by (simp add: list_all_iff)
  have rm: "r \<in> set (notes_tbl d)" using find_Some_member [OF assms(5)] by simp
  have rv: "note_id ?n \<noteq> - 1" using pos rm by (force simp: read_row_def)
  have g: "getAllNotes cv d = (map (read_row cv) (notes_tbl d), ?d1)"
    using faulted_getAllNotes [OF assms(1-3)] by simp
  have f: "find (\<lambda>n. status n = ''pending_placement'') (map (read_row cv) (notes_tbl d))
             = Some (read_row cv r)"
    using assms(5) by (simp add: find_map_read_row)
  have u: "updateNote ?n ?d1 = (False, ?d2)"
    using faulted_updateNote [of ?d1 fs ?n] assms(1) rv by simp
  have nr: "next_rowid ?d2 = next_rowid d" by (simp add: next_rowid_def)
  have ad: "addNote Note_default ?d2
     = (if created
        then (next_rowid d, d\<lparr>notes_tbl := notes_tbl d @ [bind_row (next_rowid d) Note_default],
                               sqlite_sequence := next_rowid d, faults := tl fs\<rparr>)
        else (- 1, d\<lparr>faults := tl fs\<rparr>))"
    using next_addNote [of ?d2 Note_default] assms(1,2,7) nr by simp
  have ne: "next_rowid d \<noteq> - 1" using next_rowid_positive [of d] by simp
  have e: "initializeNewNote cv a = initializeNewNote_from (map (read_row cv) (notes_tbl d))
             (a\<lparr>m_dbManager := ?d1\<rparr>)"
    using g assms(6) by (simp add: initializeNewNote_def)
  have res: "initializeNewNote cv a
      = persist_id (a\<lparr>m_note := (if created then Note_default\<lparr>note_id := next_rowid d\<rparr>
                                    else Note_default),
           m_dbManager := snd (addNote Note_default ?d2)\<rparr>)"
    unfolding e using f u ad ne by (simp add: initializeNewNote_from_def Let_def)
  have m: "m_note (initializeNewNote cv a)
           = (if created then Note_default\<lparr>note_id := next_rowid d\<rparr> else Note_default)"
    unfolding res by (simp add: persist_id_frame)
  have t: "notes_tbl (m_dbManager (initializeNewNote cv a))
           = (if created then notes_tbl d @ [bind_row (next_rowid d) Note_default] else notes_tbl d)"
    unfolding res using ad by (simp add: persist_id_frame)
  have "c_id p \<noteq> note_id (m_note (initializeNewNote cv a))" if "p \<in> set (notes_tbl d)" for p
  proof -
    have "c_id p < next_rowid d" using next_rowid_fresh [OF that] .
    moreover have "0 < c_id p" using pos that by simp
    ultimately show ?thesis unfolding m by (simp add: Note_default_def)
  qed
  then have l: "list_all (\<lambda>p. c_id p \<noteq> note_id (m_note (initializeNewNote cv a))) (notes_tbl d)"
    by (simp add: list_all_iff)
  from m t l show ?thesis by simp
qed

theorem failed_update_creates_new_witness:
  "isOpen (db_with [pending_row 3, pending_row 7] [False, False, True])
   \<and> hasTable (db_with [pending_row 3, pending_row 7] [False, False, True])
   \<and> faults (db_with [pending_row 3, pending_row 7] [False, False, True]) = False # False # True # []
   \<and> list_all (\<lambda>r. 0 < c_id r) (notes_tbl (db_with [pending_row 3, pending_row 7] [False, False, True]))
   \<and> find (\<lambda>r. c_status r = ''pending_placement'')
        (notes_tbl (db_with [pending_row 3, pending_row 7] [False, False, True])) = Some (pending_row 3)
   \<and> m_note (initializeNewNote cv0
        (new_applet (db_with [pending_row 3, pending_row 7] [False, False, True])))
       = Note_default\<lparr>note_id := 8\<rparr>
   \<and> notes_tbl (m_dbManager (initializeNewNote cv0
        (new_applet (db_with [pending_row 3, pending_row 7] [False, False, True]))))
       = [pending_row 3, pending_row 7, bind_row 8 Note_default]"
proof -
  let ?d = "db_with [pending_row 3, pending_row 7] [False, False, True]"
  have h1: "isOpen ?d" and h2: "hasTable ?d" and h3: "faults ?d = False # False # True # []"
    by (simp_all add: db_with_def)
  have h4: "list_all (\<lambda>r. 0 < c_id r) (notes_tbl ?d)"
    by (simp add: db_with_def pending_row_def bind_row_def)
  have h5: "find (\<lambda>r. c_status r = ''pending_placement'') (notes_tbl ?d) = Some (pending_row 3)"
    by (simp add: db_with_def pending_row_def bind_row_def)
  have h6: "m_dbManager (new_applet ?d) = ?d" by (simp add: new_applet_def)
  have h7: "True = (([]::bool list) = [] \<or> \<not> hd [])" by simp
  have nr: "next_rowid ?d = 8"
    by (simp add: next_rowid_def db_with_def pending_row_def bind_row_def)
  have rs: "notes_tbl ?d = [pending_row 3, pending_row 7]" by (simp add: db_with_def)
  note t = failed_update_creates_new [OF h1 h2 h3 h4 h5 h6 h7, of cv0]
  from t nr have c1: "m_note (initializeNewNote cv0 (new_applet ?d)) = Note_default\<lparr>note_id := 8\<rparr>"
    by simp
  from t nr rs have c2: "notes_tbl (m_dbManager (initializeNewNote cv0 (new_applet ?d)))
       = [pending_row 3, pending_row 7, bind_row 8 Note_default]"
    by simp
  from h1 h2 h3 h4 h5 c1 c2 show ?thesis by (intro conjI)
qed

text \<open>
  The claim C3 as stated fails. Records 3 and 7 are pending and the update of record 3
  fails: the applet does not try record 7 but creates record 8, and 3 and 7 both stay
  pending.
\<close>

theorem failed_claim_counterexample:
  "note_id (m_note (initializeNewNote cv0
      (new_applet (db_with [pending_row 3, pending_row 7] [False, False, True])))) = 8
   \<and> map (\<lambda>r. (c_id r, c_status r)) (notes_tbl (m_dbManager (initializeNewNote cv0
        (new_applet (db_with [pending_row 3, pending_row 7] [False, False, True])))))
       = [(3, ''pending_placement''), (7, ''pending_placement''), (8, ''shown'')]"
  by (simp add: initializeNewNote_def initializeNewNote_from_def getAllNotes_def
      updateNote_def addNote_def persist_id_def writeConfig_def setPreferredGeometry_def
      QRect_to_QRectF_def new_applet_def isValid_def store_defs Let_def)

end
